theory Spec2Isabelle
  imports Complex_Main "HOL-Library.AList"
begin

section \<open>Errors as values\<close>

text \<open>
  Python exceptions that the translated code can raise are values of \<open>error\<close>; a
  computation that may raise returns \<open>error + 'a\<close> with \<open>Inl\<close> for the exception.
  \<open>CallbackError\<close> stands for whatever an externally supplied callback raises.
\<close>

datatype error = IndexError | KeyError | TypeError | AttributeError | CallbackError

definition ebind :: "error + 'a \<Rightarrow> ('a \<Rightarrow> error + 'b) \<Rightarrow> error + 'b" where
  "ebind m f = (case m of Inl e \<Rightarrow> Inl e | Inr v \<Rightarrow> f v)"

text \<open>A \<open>for\<close> loop whose body may raise: the first exception ends the loop.\<close>

fun efold :: "('a \<Rightarrow> 's \<Rightarrow> error + 's) \<Rightarrow> 'a list \<Rightarrow> 's \<Rightarrow> error + 's" where
  "efold f [] s = Inr s"
| "efold f (x # xs) s = ebind (f x s) (efold f xs)"

definition getitem :: "'a list \<Rightarrow> nat \<Rightarrow> error + 'a" where
  "getitem xs i = (if i < length xs then Inr (xs ! i) else Inl IndexError)"

section \<open>Biome palette remapping (translator.py, \<open>_biomes_to_universal\<close>)\<close>

fun index_of :: "'a list \<Rightarrow> 'a \<Rightarrow> nat" where
  "index_of [] v = 0"
| "index_of (x # xs) v = (if x = v then 0 else Suc (index_of xs v))"

text \<open>
  \<open>numpy.unique(a, return_inverse=True)\<close> on the flattened array: the sorted distinct
  values, and for every cell the position of its value among them.
\<close>

definition numpy_unique :: "int list \<Rightarrow> int list \<times> nat list" where
  "numpy_unique ar = (let u = sort (remdups ar) in (u, map (index_of u) ar))"

text \<open>
  The list comprehension \<open>[rule(biome) for biome in biome_palette]\<close>. The rule belongs
  to the external version service; it is a state transformer here, so that a rule which
  observes its own invocations (a counter) can be passed in.
\<close>

fun call_each :: "('a \<Rightarrow> 's \<Rightarrow> 'b \<times> 's) \<Rightarrow> 'a list \<Rightarrow> 's \<Rightarrow> 'b list \<times> 's" where
  "call_each f [] s = ([], s)"
| "call_each f (x # xs) s =
     (let (y, s1) = f x s; (ys, s2) = call_each f xs s1 in (y # ys, s2))"

text \<open>
  The first argument is \<open>translator_version.biome.to_universal\<close> (respectively
  \<open>from_universal\<close>); the biome array is taken flattened, as \<open>numpy.unique\<close> does.
\<close>

definition biomes_to_universal ::
  "(int \<Rightarrow> 's \<Rightarrow> int \<times> 's) \<Rightarrow> int list \<Rightarrow> 's \<Rightarrow> int list \<times> 's" where
  "biomes_to_universal to_universal_rule biome_array s =
     (let (biome_palette, biome_compact_array) = numpy_unique biome_array;
          (universal_biome_palette, s') = call_each to_universal_rule biome_palette s
      in (map (\<lambda>i. universal_biome_palette ! i) biome_compact_array, s'))"

definition biomes_from_universal ::
  "(int \<Rightarrow> 's \<Rightarrow> int \<times> 's) \<Rightarrow> int list \<Rightarrow> 's \<Rightarrow> int list \<times> 's" where
  "biomes_from_universal from_universal_rule biome_array s =
     (let (biome_palette, biome_compact_array) = numpy_unique biome_array;
          (universal_biome_palette, s') = call_each from_universal_rule biome_palette s
      in (map (\<lambda>i. universal_biome_palette ! i) biome_compact_array, s'))"

text \<open>A pure per-value rule \<open>f\<close> that counts how often it is invoked.\<close>

definition counted :: "('a \<Rightarrow> 'b) \<Rightarrow> 'a \<Rightarrow> nat \<Rightarrow> 'b \<times> nat" where
  "counted f v n = (f v, Suc n)"

text \<open>A pure rule that observes nothing.\<close>

definition unobserved :: "('a \<Rightarrow> 'b) \<Rightarrow> 'a \<Rightarrow> unit \<Rightarrow> 'b \<times> unit" where
  "unobserved f v u = (f v, u)"

section \<open>Data model\<close>

type_synonym pos = "int \<times> int \<times> int"

text \<open>
  Modelled from the spec: the classes \<open>BlockManager\<close>, \<open>BlockEntity\<close>, \<open>Entity\<close>,
  \<open>Chunk\<close> and its block container are imported by translator.py from modules that
  are not among the source files; the definitions of this section follow section 3 and
  section 4.1 of the specification.

  A vertical section of the block array is a three dimensional numpy array of palette
  indices. It is represented by its cells in C order, each with its index triple
  \<open>(x, y, z)\<close>; \<open>numpy.where\<close> lists index triples in this order. The block container
  keeps the sections keyed by their vertical section id, in iteration order.
\<close>

type_synonym sub_chunk = "(pos \<times> nat) list"

type_synonym blocks = "(int \<times> sub_chunk) list"

text \<open>
  Modelled from the spec: a palette entry is a block value or, for some version
  encodings, a tuple of (version, block) pairs wrapping the block value.
\<close>

datatype 'b entry = Blk 'b | Tup "(int option \<times> 'b) list"

text \<open>
  Modelled from the spec: a block entity has a namespaced name (the namespace may be
  missing), an opaque payload and an integer location; an entity has a name, a payload
  and a location of three floating point numbers, idealised as reals.
\<close>

record 'n block_entity =
  be_namespace :: "string option"
  be_base_name :: string
  be_location :: pos
  be_nbt :: 'n

record 'n entity =
  e_namespaced_name :: string
  e_location :: "real \<times> real \<times> real"
  e_nbt :: 'n

record 'n chunk =
  cx :: int
  cz :: int
  blocks :: blocks
  block_entities :: "'n block_entity list"
  entities :: "'n entity list"
  biomes :: "int list"

text \<open>
  Modelled from the spec: \<open>BlockEntity.new_at_location\<close> is a copy of the block entity
  placed at the given location.
\<close>

definition new_at_location :: "'n block_entity \<Rightarrow> pos \<Rightarrow> 'n block_entity" where
  "new_at_location be p = be\<lparr>be_location := p\<rparr>"

text \<open>
  Modelled from the spec: the chunk's block entities form a mapping from absolute
  position to block entity; \<open>chunk.block_entities.get(position)\<close> is the block entity
  located there, if any.
\<close>

definition block_entity_get :: "'n block_entity list \<Rightarrow> pos \<Rightarrow> 'n block_entity option" where
  "block_entity_get bes p = find (\<lambda>be. be_location be = p) bes"

text \<open>
  Modelled from the spec (section 4.1): \<open>get_add_block\<close> looks the block up by
  structural equality; if present it returns the existing index, otherwise it appends
  the block and returns the next sequential index. The manager is the sequence of its
  blocks in order of first insertion.
\<close>

definition get_add_block :: "'b \<Rightarrow> 'b list \<Rightarrow> nat \<times> 'b list" where
  "get_add_block b bm = (if b \<in> set bm then (index_of bm b, bm) else (length bm, bm @ [b]))"

text \<open>
  Modelled from the spec: \<open>chunk.blocks[x, y, z]\<close> with an absolute \<open>y\<close> reads the cell
  \<open>(x, y mod 16, z)\<close> of the vertical section \<open>y div 16\<close>; a section or cell that does not
  exist raises.
\<close>

definition blocks_getitem :: "blocks \<Rightarrow> pos \<Rightarrow> error + nat" where
  "blocks_getitem bs p =
     (case p of (x, y, z) \<Rightarrow>
        (case map_of bs (y div 16) of
           None \<Rightarrow> Inl KeyError
         | Some s \<Rightarrow>
             (case map_of s (x, y mod 16, z) of
                None \<Rightarrow> Inl IndexError
              | Some v \<Rightarrow> Inr v)))"

definition blocks_setitem :: "blocks \<Rightarrow> pos \<Rightarrow> nat \<Rightarrow> error + blocks" where
  "blocks_setitem bs p v =
     (case p of (x, y, z) \<Rightarrow>
        (case map_of bs (y div 16) of
           None \<Rightarrow> Inl KeyError
         | Some s \<Rightarrow>
             (case map_of s (x, y mod 16, z) of
                None \<Rightarrow> Inl IndexError
              | Some _ \<Rightarrow>
                  Inr (AList.update (y div 16) (AList.update (x, y mod 16, z) v s) bs))))"

text \<open>\<open>zip(*numpy.where(a == i))\<close>: the index triples of the cells that hold \<open>i\<close>.\<close>

definition where_eq :: "sub_chunk \<Rightarrow> nat \<Rightarrow> pos list" where
  "where_eq a i = map fst (filter (\<lambda>c. snd c = i) a)"

text \<open>
  The double loop \<open>for cy in chunk.blocks.sub_chunks: for x, y, z in
  zip(*numpy.where(chunk.blocks.get_sub_chunk(cy) == i))\<close>, which translator.py runs
  at three places: the section id and the section-local index triple of every cell that
  holds \<open>i\<close>.
\<close>

definition occurrences :: "blocks \<Rightarrow> nat \<Rightarrow> (int \<times> pos) list" where
  "occurrences bs i = concat (map (\<lambda>(cy, a). map (Pair cy) (where_eq a i)) bs)"

text \<open>
  Modelled from the spec: the block container is a mapping from section ids to arrays,
  and a cell's \<open>y\<close> within its section is below 16. In a well-formed container no section
  id and no index triple occurs twice.
\<close>

definition wf_blocks :: "blocks \<Rightarrow> bool" where
  "wf_blocks bs \<longleftrightarrow>
     distinct (map fst bs) \<and>
     list_all (\<lambda>(cy, a). distinct (map fst a) \<and> list_all (\<lambda>((x, y, z), v). 0 \<le> y \<and> y < 16) a) bs"

section \<open>The translation engine (translator.py, \<open>Translator._translate\<close>)\<close>

type_synonym ('b, 'n) get_block_callback = "pos \<Rightarrow> error + ('b \<times> 'n block_entity option)"

type_synonym ('b, 'n) translate_block_return =
  "'b option \<times> 'n block_entity option \<times> 'n entity list \<times> bool"

type_synonym ('b, 'n) translate_block_callback =
  "'b entry \<Rightarrow> ('b, 'n) get_block_callback option \<Rightarrow> error + ('b, 'n) translate_block_return"

type_synonym ('b, 'n) translate_entity_return =
  "'b option \<times> 'n block_entity option \<times> 'n entity list"

type_synonym ('b, 'n) translate_entity_callback =
  "'n entity \<Rightarrow> error + ('b, 'n) translate_entity_return"

type_synonym ('b, 'n) get_chunk_callback = "int \<Rightarrow> int \<Rightarrow> error + ('n chunk \<times> 'b entry list)"

text \<open>
  A value stored in \<open>block_mappings\<close>: Phase 2 stores an index returned by
  \<open>finished.get_add_block\<close>, the entity pass stores the \<open>output_block\<close> itself.
\<close>

datatype 'b new_cell = Idx nat | Raw 'b

text \<open>
  The local variables of \<open>_translate\<close>. \<open>tb_calls\<close> is not a variable of the source: it
  records each invocation of \<open>translate_block\<close>, by the palette index of the block and
  the position the resolver passed to it is bound to (\<open>None\<close> where no resolver is
  passed).
\<close>

record ('b, 'n) acc =
  todo :: "nat list"
  output_block_entities :: "'n block_entity list"
  output_entities :: "'n entity list"
  finished :: "'b list"
  palette_mappings :: "(nat \<times> nat) list"
  block_mappings :: "(pos \<times> 'b new_cell) list"
  tb_calls :: "(nat \<times> pos option) list"

definition init_acc :: "('b, 'n) acc" where
  "init_acc = \<lparr>todo = [], output_block_entities = [], output_entities = [], finished = [],
     palette_mappings = [], block_mappings = [], tb_calls = []\<rparr>"

text \<open>\<open>e = copy.deepcopy(entity); e.location += (x, y, z)\<close> for every entity of a list.\<close>

definition offset_entities :: "pos \<Rightarrow> 'n entity list \<Rightarrow> 'n entity list" where
  "offset_entities p es =
     (case p of (x, y, z) \<Rightarrow>
        map (\<lambda>e. case e_location e of (ex, ey, ez) \<Rightarrow>
               e\<lparr>e_location := (ex + of_int x, ey + of_int y, ez + of_int z)\<rparr>) es)"

text \<open>
  The body of the Phase 1 loop after the callback has returned (lines 78 to 101), for
  the palette index \<open>i\<close> and the callback's result.
\<close>

definition phase1_body ::
  "'n chunk \<Rightarrow> ('b, 'n) get_chunk_callback option \<Rightarrow> bool \<Rightarrow> nat
   \<Rightarrow> ('b, 'n) translate_block_return \<Rightarrow> ('b, 'n) acc \<Rightarrow> ('b, 'n) acc" where
  "phase1_body chunk get_chunk_callback entity_support i r st =
     (case r of (output_block, output_block_entity, output_entity, extra) \<Rightarrow>
        let st0 = st\<lparr>tb_calls := tb_calls st @ [(i, None)]\<rparr>;
            occ = occurrences (blocks chunk) i;
            st1 =
              (if extra \<and> \<not> Option.is_none get_chunk_callback
               then st0\<lparr>todo := todo st0 @ [i]\<rparr>
               else
                 (case output_block of
                    Some b \<Rightarrow>
                      (let (k, fin) = get_add_block b (finished st0);
                           st' = st0\<lparr>finished := fin,
                             palette_mappings := AList.update i k (palette_mappings st0)\<rparr>
                       in (case output_block_entity of
                             Some be \<Rightarrow>
                               st'\<lparr>output_block_entities := output_block_entities st' @
                                 map (\<lambda>(cy, (x, y, z)).
                                        new_at_location be
                                          (x + cx chunk * 16, y + cy * 16, z + cz chunk * 16))
                                   occ\<rparr>
                           | None \<Rightarrow> st'))
                  | None \<Rightarrow> st0))
        in (if output_entity \<noteq> [] \<and> entity_support
            then st1\<lparr>output_entities := output_entities st1 @
                   concat (map (\<lambda>(cy, (x, y, z)).
                             offset_entities
                               (x + cx chunk * 16, y + cy * 16, z + cz chunk * 16)
                               output_entity) occ)\<rparr>
            else st1))"

text \<open>One iteration of the Phase 1 loop over \<open>enumerate(palette)\<close> (lines 73 to 101).\<close>

definition phase1_step ::
  "'n chunk \<Rightarrow> ('b, 'n) get_chunk_callback option \<Rightarrow> ('b, 'n) translate_block_callback \<Rightarrow> bool
   \<Rightarrow> nat \<times> 'b entry \<Rightarrow> ('b, 'n) acc \<Rightarrow> error + ('b, 'n) acc" where
  "phase1_step chunk get_chunk_callback translate_block entity_support ib st =
     (case ib of (i, input_block) \<Rightarrow>
        ebind (translate_block input_block None)
          (\<lambda>r. Inr (phase1_body chunk get_chunk_callback entity_support i r st)))"

definition phase1 ::
  "'n chunk \<Rightarrow> 'b entry list \<Rightarrow> ('b, 'n) get_chunk_callback option
   \<Rightarrow> ('b, 'n) translate_block_callback \<Rightarrow> bool \<Rightarrow> error + ('b, 'n) acc" where
  "phase1 chunk palette get_chunk_callback translate_block entity_support =
     efold (phase1_step chunk get_chunk_callback translate_block entity_support)
       (enumerate 0 palette) init_acc"

text \<open>\<open>block[0][1]\<close> when the palette entry is a tuple (lines 132 to 135 and 141 to 144).\<close>

fun unwrap :: "'b entry \<Rightarrow> error + 'b" where
  "unwrap (Blk b) = Inr b"
| "unwrap (Tup []) = Inl IndexError"
| "unwrap (Tup ((v, b) # rest)) = Inr b"

text \<open>
  The closure \<open>get_block_at\<close> (lines 110 to 148), with the variables it captures as
  arguments: the chunk, its palette, the chunk loader and the position \<open>(x, y, z)\<close> of the
  block being translated (\<open>x\<close> and \<open>z\<close> chunk-local, \<open>y\<close> absolute).
\<close>

definition get_block_at ::
  "'n chunk \<Rightarrow> 'b entry list \<Rightarrow> ('b, 'n) get_chunk_callback option \<Rightarrow> pos
   \<Rightarrow> ('b, 'n) get_block_callback" where
  "get_block_at chunk palette get_chunk_callback xyz rel =
     (case xyz of (x, y, z) \<Rightarrow> case rel of (rx, ry, rz) \<Rightarrow>
        let dx = rx + x; dy = ry + y; dz = rz + z;
            abs_x = dx + cx chunk * 16; abs_y = dy; abs_z = dz + cz chunk * 16;
            ccx = dx div 16; ccz = dz div 16
        in if ccx = 0 \<and> ccz = 0
           then
             ebind (blocks_getitem (blocks chunk) (dx, dy, dz)) (\<lambda>i.
             ebind (getitem palette i) (\<lambda>block.
             ebind (unwrap block) (\<lambda>b.
               Inr (b, block_entity_get (block_entities chunk) (abs_x, abs_y, abs_z)))))
           else
             (case get_chunk_callback of
                None \<Rightarrow> Inl TypeError
              | Some load \<Rightarrow>
                  ebind (load ccx ccz) (\<lambda>(local_chunk, local_palette).
                  ebind (blocks_getitem (blocks local_chunk) (dx mod 16, dy, dz mod 16)) (\<lambda>i.
                  ebind (getitem local_palette i) (\<lambda>block.
                  ebind (unwrap block) (\<lambda>b.
                    Inr (b, block_entity_get (block_entities local_chunk)
                              (abs_x, abs_y, abs_z))))))))"

text \<open>
  The body of the innermost Phase 2 loop after the callback has returned (lines 154 to
  168), for the deferred palette index \<open>index\<close>, the position \<open>(x, y, z)\<close> (\<open>y\<close> absolute)
  and the callback's result.
\<close>

definition phase2_body ::
  "'n chunk \<Rightarrow> bool \<Rightarrow> nat \<Rightarrow> pos \<Rightarrow> ('b, 'n) translate_block_return \<Rightarrow> ('b, 'n) acc
   \<Rightarrow> ('b, 'n) acc" where
  "phase2_body chunk entity_support index xyz r st =
     (case xyz of (x, y, z) \<Rightarrow>
      case r of (output_block, output_block_entity, output_entity, extra) \<Rightarrow>
        let st0 = st\<lparr>tb_calls := tb_calls st @ [(index, Some (x, y, z))]\<rparr>;
            st1 =
              (case output_block of
                 Some b \<Rightarrow>
                   (let (k, fin) = get_add_block b (finished st0);
                        st' = st0\<lparr>finished := fin,
                          block_mappings := AList.update (x, y, z) (Idx k) (block_mappings st0)\<rparr>
                    in (case output_block_entity of
                          Some be \<Rightarrow>
                            st'\<lparr>output_block_entities := output_block_entities st' @
                              [new_at_location be (x + cx chunk * 16, y, z + cz chunk * 16)]\<rparr>
                        | None \<Rightarrow> st'))
               | None \<Rightarrow> st0)
        in (if output_entity \<noteq> [] \<and> entity_support
            then st1\<lparr>output_entities := output_entities st1 @
                   offset_entities (x, y, z) output_entity\<rparr>
            else st1))"

text \<open>
  One iteration of the innermost Phase 2 loop (lines 107 to 168), for the deferred palette
  index \<open>index\<close> and one of its occurrences.
\<close>

definition phase2_step ::
  "'n chunk \<Rightarrow> 'b entry list \<Rightarrow> ('b, 'n) get_chunk_callback option
   \<Rightarrow> ('b, 'n) translate_block_callback \<Rightarrow> bool
   \<Rightarrow> nat \<times> int \<times> pos \<Rightarrow> ('b, 'n) acc \<Rightarrow> error + ('b, 'n) acc" where
  "phase2_step chunk palette get_chunk_callback translate_block entity_support job st =
     (case job of (index, cy, (x, y0, z)) \<Rightarrow>
        let y = y0 + cy * 16 in
        ebind (blocks_getitem (blocks chunk) (x, y, z)) (\<lambda>i.
        ebind (getitem palette i) (\<lambda>input_block.
        ebind (translate_block input_block
                 (Some (get_block_at chunk palette get_chunk_callback (x, y, z))))
          (\<lambda>r. Inr (phase2_body chunk entity_support index (x, y, z) r st)))))"

definition phase2 ::
  "'n chunk \<Rightarrow> 'b entry list \<Rightarrow> ('b, 'n) get_chunk_callback option
   \<Rightarrow> ('b, 'n) translate_block_callback \<Rightarrow> bool \<Rightarrow> ('b, 'n) acc \<Rightarrow> error + ('b, 'n) acc" where
  "phase2 chunk palette get_chunk_callback translate_block entity_support st =
     efold (phase2_step chunk palette get_chunk_callback translate_block entity_support)
       (concat (map (\<lambda>index. map (Pair index) (occurrences (blocks chunk) index)) (todo st)))
       st"

text \<open>
  The body of the entity loop after the callback has returned (lines 173 to 181), for
  the entity and the callback's result.
\<close>

definition entity_body ::
  "'n entity \<Rightarrow> ('b, 'n) translate_entity_return \<Rightarrow> ('b, 'n) acc \<Rightarrow> ('b, 'n) acc" where
  "entity_body ent r st =
     (case r of (output_block, output_block_entity, output_entity) \<Rightarrow>
        let st1 =
              (case output_block of
                 Some b \<Rightarrow>
                   (let block_location =
                          (case e_location ent of (ex, ey, ez) \<Rightarrow> (\<lfloor>ex\<rfloor>, \<lfloor>ey\<rfloor>, \<lfloor>ez\<rfloor>));
                        st' = st\<lparr>block_mappings :=
                                AList.update block_location (Raw b) (block_mappings st)\<rparr>
                    in (case output_block_entity of
                          Some be \<Rightarrow>
                            st'\<lparr>output_block_entities := output_block_entities st' @
                              [new_at_location be block_location]\<rparr>
                        | None \<Rightarrow> st'))
               | None \<Rightarrow> st)
        in (if output_entity \<noteq> []
            then st1\<lparr>output_entities := output_entities st1 @
                   map (\<lambda>e. e\<lparr>e_location := e_location ent\<rparr>) output_entity\<rparr>
            else st1))"

text \<open>One iteration of the entity loop (lines 171 to 181).\<close>

definition entity_step ::
  "('b, 'n) translate_entity_callback \<Rightarrow> 'n entity \<Rightarrow> ('b, 'n) acc \<Rightarrow> error + ('b, 'n) acc" where
  "entity_step translate_entity ent st =
     ebind (translate_entity ent) (\<lambda>r. Inr (entity_body ent r st))"

definition entity_pass ::
  "'n chunk \<Rightarrow> ('b, 'n) translate_entity_callback \<Rightarrow> bool \<Rightarrow> ('b, 'n) acc
   \<Rightarrow> error + ('b, 'n) acc" where
  "entity_pass chunk translate_entity entity_support st =
     (if entity_support then efold (entity_step translate_entity) (entities chunk) st else Inr st)"

text \<open>
  Phases 1 and 2 and the entity pass in sequence: the local variables of \<open>_translate\<close>
  when the commit loops (line 183) start.
\<close>

definition translate_phases ::
  "'n chunk \<Rightarrow> 'b entry list \<Rightarrow> ('b, 'n) get_chunk_callback option
   \<Rightarrow> ('b, 'n) translate_block_callback \<Rightarrow> ('b, 'n) translate_entity_callback \<Rightarrow> bool
   \<Rightarrow> error + ('b, 'n) acc" where
  "translate_phases chunk palette get_chunk_callback translate_block translate_entity
       entity_support =
     ebind (phase1 chunk palette get_chunk_callback translate_block entity_support) (\<lambda>st1.
     ebind (phase2 chunk palette get_chunk_callback translate_block entity_support st1) (\<lambda>st2.
       entity_pass chunk translate_entity entity_support st2))"

text \<open>\<open>numpy.zeros(old_blocks.shape, dtype=old_blocks.dtype)\<close>\<close>

definition zeros_like :: "sub_chunk \<Rightarrow> sub_chunk" where
  "zeros_like a = map (\<lambda>(p, v). (p, 0)) a"

text \<open>\<open>new_blocks[old_blocks == old] = new\<close>\<close>

definition assign_where :: "sub_chunk \<Rightarrow> nat \<Rightarrow> nat \<Rightarrow> sub_chunk \<Rightarrow> sub_chunk" where
  "assign_where old_blocks old new new_blocks =
     map2 (\<lambda>(p, ov) (q, nv). (q, if ov = old then new else nv)) old_blocks new_blocks"

definition rewrite_sub_chunk :: "(nat \<times> nat) list \<Rightarrow> sub_chunk \<Rightarrow> sub_chunk" where
  "rewrite_sub_chunk pm old_blocks =
     fold (\<lambda>(old, new) new_blocks. assign_where old_blocks old new new_blocks) pm
       (zeros_like old_blocks)"

text \<open>
  \<open>chunk.blocks[x, y, z] = new\<close> (line 190). The array holds integers: storing a block
  value in it raises.
\<close>

definition commit_step :: "pos \<times> 'b new_cell \<Rightarrow> blocks \<Rightarrow> error + blocks" where
  "commit_step m bs =
     (case m of (p, new) \<Rightarrow>
        (case new of Idx k \<Rightarrow> blocks_setitem bs p k | Raw b \<Rightarrow> Inl TypeError))"

text \<open>The commit (lines 183 to 192).\<close>

definition commit :: "'n chunk \<Rightarrow> ('b, 'n) acc \<Rightarrow> error + 'n chunk" where
  "commit chunk st =
     ebind (efold commit_step (block_mappings st)
              (map (\<lambda>(cy, old_blocks). (cy, rewrite_sub_chunk (palette_mappings st) old_blocks))
                 (blocks chunk)))
       (\<lambda>bs. Inr (chunk\<lparr>blocks := bs, block_entities := output_block_entities st,
                     entities := output_entities st\<rparr>))"

text \<open>
  \<open>Translator._translate\<close>. The module-level flag \<open>entity_support\<close> of the package is an
  argument. The returned palette is the sequence of the blocks of \<open>finished\<close>.
\<close>

definition translate ::
  "'n chunk \<Rightarrow> 'b entry list \<Rightarrow> ('b, 'n) get_chunk_callback option
   \<Rightarrow> ('b, 'n) translate_block_callback \<Rightarrow> ('b, 'n) translate_entity_callback \<Rightarrow> bool \<Rightarrow> bool
   \<Rightarrow> error + ('n chunk \<times> 'b entry list)" where
  "translate chunk palette get_chunk_callback translate_block translate_entity entity_support
       full_translate =
     (if \<not> full_translate then Inr (chunk, palette)
      else
        ebind (translate_phases chunk palette get_chunk_callback translate_block translate_entity
                 entity_support) (\<lambda>st.
        ebind (commit chunk st) (\<lambda>chunk'.
          Inr (chunk', map Blk (finished st)))))"

section \<open>Direction adapters (translator.py, \<open>to_universal\<close> and \<open>from_universal\<close>)\<close>

text \<open>
  Modelled from the spec: the class \<open>Block\<close> is not among the source files. A composite
  block is a base layer with an ordered sequence of extra layers; \<open>base_block\<close> is the
  block without its extra layers, \<open>extra_blocks\<close> are the extra layers as blocks, and
  \<open>a + b\<close> stacks the layers of \<open>b\<close> on top of those of \<open>a\<close>. Equality is structural and
  considers the whole layered sequence.
\<close>

datatype 'l block = Block (base_layer: 'l) (extra_layers: "'l list")

definition base_block :: "'l block \<Rightarrow> 'l block" where
  "base_block b = Block (base_layer b) []"

definition extra_blocks :: "'l block \<Rightarrow> 'l block list" where
  "extra_blocks b = map (\<lambda>l. Block l []) (extra_layers b)"

definition block_add :: "'l block \<Rightarrow> 'l block \<Rightarrow> 'l block" where
  "block_add a b = Block (base_layer a) (extra_layers a @ base_layer b # extra_layers b)"

text \<open>The \<open>output_object\<close> of a block rule of the version service: a block, an entity or nothing.\<close>

datatype ('l, 'n) rule_object = BlockObject "'l block" | EntityObject "'n entity" | NoObject

type_synonym ('l, 'n) block_rule =
  "'l block \<Rightarrow> ('l block, 'n) get_block_callback option
   \<Rightarrow> error + (('l, 'n) rule_object \<times> 'n block_entity option \<times> bool)"

text \<open>
  The \<open>Version\<close> object of the external translation library, as far as the adapters use
  it. A namespaced name is a pair of an optional namespace and a base name.
\<close>

record ('l, 'n) version =
  block_to_universal :: "('l, 'n) block_rule"
  block_from_universal :: "('l, 'n) block_rule"
  biome_to_universal :: "int \<Rightarrow> int"
  biome_from_universal :: "int \<Rightarrow> int"
  block_entity_map :: "(string \<Rightarrow> (string option \<times> string) option) option"
  block_entity_map_inverse :: "string option \<times> string \<Rightarrow> (string option \<times> string) option"

text \<open>
  One iteration of the loop over the layers in the nested function \<open>translate_block\<close>
  (lines 226 to 251 and 317 to 344); the two copies differ in the rule they call and in
  what they log.
\<close>

definition layer_step ::
  "('l, 'n) block_rule \<Rightarrow> ('l block, 'n) get_block_callback option \<Rightarrow> nat \<times> 'l block
   \<Rightarrow> ('l block, 'n) translate_block_return \<Rightarrow> error + ('l block, 'n) translate_block_return" where
  "layer_step rule get_block_callback db fin =
     (case db of (depth, block) \<Rightarrow>
      case fin of (final_block, final_block_entity, final_entities, final_extra) \<Rightarrow>
        ebind (rule block get_block_callback) (\<lambda>(output_object, output_block_entity, extra).
          Inr (case output_object of
                 BlockObject ob \<Rightarrow>
                   ((case final_block of None \<Rightarrow> Some ob | Some fb \<Rightarrow> Some (block_add fb ob)),
                    (if depth = 0 then output_block_entity else final_block_entity),
                    final_entities, final_extra \<or> extra)
               | EntityObject e \<Rightarrow>
                   (final_block, final_block_entity, final_entities @ [e], final_extra \<or> extra)
               | NoObject \<Rightarrow>
                   (final_block, final_block_entity, final_entities, final_extra \<or> extra))))"

text \<open>
  The nested function \<open>translate_block\<close>. A palette entry that is a tuple has no
  attribute \<open>base_block\<close>.
\<close>

definition translate_block_with ::
  "('l, 'n) block_rule \<Rightarrow> ('l block, 'n) translate_block_callback" where
  "translate_block_with rule input_object get_block_callback =
     (case input_object of
        Tup _ \<Rightarrow> Inl AttributeError
      | Blk b \<Rightarrow>
          efold (layer_step rule get_block_callback)
            (enumerate 0 (base_block b # extra_blocks b)) (None, None, [], False))"

text \<open>The nested function \<open>translate_entity\<close>, a stub in both directions.\<close>

definition translate_entity_stub :: "('b, 'n) translate_entity_callback" where
  "translate_entity_stub input_object = Inr (None, None, [])"

text \<open>
  \<open>Translator.to_universal\<close>. The version is the one that \<open>translation_manager.get_version\<close>
  returns for the chunk's version key.
\<close>

definition to_universal ::
  "('l, 'n) version \<Rightarrow> 'n chunk \<Rightarrow> 'l block entry list
   \<Rightarrow> ('l block, 'n) get_chunk_callback option \<Rightarrow> bool \<Rightarrow> bool
   \<Rightarrow> error + ('n chunk \<times> 'l block entry list)" where
  "to_universal ver chunk palette get_chunk_callback entity_support full_translate =
     (let chunk1 = chunk\<lparr>biomes :=
            fst (biomes_to_universal (unobserved (biome_to_universal ver)) (biomes chunk) ())\<rparr>;
          chunk2 =
            (case block_entity_map ver of
               None \<Rightarrow> chunk1
             | Some m \<Rightarrow>
                 chunk1\<lparr>block_entities :=
                   map (\<lambda>be.
                          if be_namespace be = None
                          then (case m (be_base_name be) of
                                  Some (ns, bn) \<Rightarrow> be\<lparr>be_namespace := ns, be_base_name := bn\<rparr>
                                | None \<Rightarrow> be)
                          else be)
                     (block_entities chunk1)\<rparr>)
      in translate chunk2 palette get_chunk_callback
           (translate_block_with (block_to_universal ver)) translate_entity_stub
           entity_support full_translate)"

text \<open>\<open>Translator._pack_palette\<close>\<close>

definition pack_palette :: "('l, 'n) version \<Rightarrow> 'l block entry list \<Rightarrow> 'l block entry list" where
  "pack_palette ver palette = palette"

text \<open>\<open>Translator.from_universal\<close>\<close>

definition from_universal ::
  "('l, 'n) version \<Rightarrow> 'n chunk \<Rightarrow> 'l block entry list
   \<Rightarrow> ('l block, 'n) get_chunk_callback option \<Rightarrow> bool \<Rightarrow> bool
   \<Rightarrow> error + ('n chunk \<times> 'l block entry list)" where
  "from_universal ver chunk palette get_chunk_callback entity_support full_translate =
     ebind (translate chunk palette get_chunk_callback
              (translate_block_with (block_from_universal ver)) translate_entity_stub
              entity_support full_translate)
       (\<lambda>(chunk1, palette1).
          let palette2 = pack_palette ver palette1;
              chunk2 = chunk1\<lparr>biomes :=
                fst (biomes_from_universal (unobserved (biome_from_universal ver))
                       (biomes chunk1) ())\<rparr>;
              chunk3 =
                (case block_entity_map ver of
                   None \<Rightarrow> chunk2
                 | Some m \<Rightarrow>
                     chunk2\<lparr>block_entities :=
                       map (\<lambda>be.
                              case block_entity_map_inverse ver (be_namespace be, be_base_name be) of
                                Some (ns, bn) \<Rightarrow> be\<lparr>be_namespace := ns, be_base_name := bn\<rparr>
                              | None \<Rightarrow> be)
                         (block_entities chunk2)\<rparr>)
          in Inr (chunk3, palette2))"

section \<open>The replace operation (replace.py)\<close>

text \<open>
  Modelled from the spec: \<open>World\<close> and \<open>Selection\<close> are not among the source files. The
  world is its block palette manager and, for every pair that
  \<open>world.get_chunk_slices(selection)\<close> yields, the cells of \<open>chunk.blocks[slice]\<close>.
\<close>

record 'b world =
  w_palette :: "'b list"
  w_selected :: "nat list list"

text \<open>\<open>list(map(world.palette.get_add_block, blocks))\<close>\<close>

fun get_add_blocks :: "'b list \<Rightarrow> 'b list \<Rightarrow> nat list \<times> 'b list" where
  "get_add_blocks [] bm = ([], bm)"
| "get_add_blocks (b # bs) bm =
     (let (k, bm1) = get_add_block b bm; (ks, bm2) = get_add_blocks bs bm1 in (k # ks, bm2))"

text \<open>
  The body of the loop over the chunk slices: \<open>blocks\<close> is a copy of the selected cells,
  and every pair of ids rewrites the cells where the copy holds the original id.
\<close>

definition replace_in_slice :: "nat list \<Rightarrow> nat list \<Rightarrow> nat list \<Rightarrow> nat list" where
  "replace_in_slice original_internal_ids replacement_internal_ids cells =
     fold (\<lambda>(original_id, replacement_id) cur.
             map2 (\<lambda>b c. if b = original_id then replacement_id else c) cells cur)
       (zip original_internal_ids replacement_internal_ids) cells"

text \<open>
  \<open>replace\<close>. The two options are \<open>None\<close> when the key is missing and a list of blocks
  otherwise; for a list the two \<open>isinstance\<close> guards do not fire, for \<open>None\<close> the call
  \<open>all(... for block in None)\<close> raises. The result is the messages logged with
  \<open>log.error\<close> and the world as the call leaves it.
\<close>

definition replace ::
  "'b world \<Rightarrow> 'b list option \<Rightarrow> 'b list option \<Rightarrow> error + (string list \<times> 'b world)" where
  "replace world original_option replacement_option =
     (case original_option of
        None \<Rightarrow> Inl TypeError
      | Some original_blocks \<Rightarrow>
          (case replacement_option of
             None \<Rightarrow> Inl TypeError
           | Some replacement_blocks0 \<Rightarrow>
               (let (replacement_blocks, logged) =
                      (if length original_blocks \<noteq> length replacement_blocks0
                       then (if length replacement_blocks0 = 1
                             then (concat (replicate (length original_blocks) replacement_blocks0), [])
                             else (replacement_blocks0,
                                   [''Replace operation must be given the same number of destination blocks as source blocks'']))
                       else (replacement_blocks0, []));
                    (original_internal_ids, palette1) =
                      get_add_blocks original_blocks (w_palette world);
                    (replacement_internal_ids, palette2) =
                      get_add_blocks replacement_blocks palette1
                in Inr (logged,
                        world\<lparr>w_palette := palette2,
                          w_selected :=
                            map (replace_in_slice original_internal_ids replacement_internal_ids)
                              (w_selected world)\<rparr>))))"

section \<open>Example inputs\<close>

text \<open>
  A chunk at \<open>(cx, cz) = (2, -1)\<close> with one vertical section of shape \<open>2 \<times> 1 \<times> 4\<close>, and a
  palette in which \<open>stone\<close> occurs twice. The example callback translates \<open>stone\<close> and
  \<open>chest\<close> without context (a chest comes with a block entity), asks for context for a
  \<open>door\<close> (and yields an entity both times it is asked), and yields nothing for other
  blocks.
\<close>

definition ex_chunk :: "unit chunk" where
  "ex_chunk = \<lparr>cx = 2, cz = - 1,
     blocks = [(0, [((0, 0, 0), 0), ((0, 0, 1), 1), ((0, 0, 2), 3), ((0, 0, 3), 4),
                    ((1, 0, 0), 1), ((1, 0, 1), 2), ((1, 0, 2), 3), ((1, 0, 3), 0)])],
     block_entities = [], entities = [], biomes = [1, 1, 4]\<rparr>"

definition ex_palette :: "string entry list" where
  "ex_palette = [Blk ''stone'', Blk ''door'', Blk ''junk'', Blk ''chest'', Blk ''stone'']"

definition ex_block_entity :: "unit block_entity" where
  "ex_block_entity = \<lparr>be_namespace = Some ''universal'', be_base_name = ''chest'',
     be_location = (0, 0, 0), be_nbt = ()\<rparr>"

definition ex_entity :: "unit entity" where
  "ex_entity = \<lparr>e_namespaced_name = ''universal:item'', e_location = (0, 0, 0), e_nbt = ()\<rparr>"

definition ex_translate_block :: "(string, unit) translate_block_callback" where
  "ex_translate_block input_block get_block_callback =
     (case input_block of
        Tup _ \<Rightarrow> Inl AttributeError
      | Blk name \<Rightarrow>
          if name = ''stone'' then Inr (Some ''universal_stone'', None, [], False)
          else if name = ''chest''
          then Inr (Some ''universal_chest'', Some ex_block_entity, [], False)
          else if name = ''door'' then
            (case get_block_callback of
               None \<Rightarrow> Inr (None, None, [ex_entity], True)
             | Some get_block \<Rightarrow> Inr (Some ''universal_door'', None, [ex_entity], True))
          else Inr (None, None, [], False))"

definition ex_get_chunk :: "(string, unit) get_chunk_callback" where
  "ex_get_chunk x z = Inl CallbackError"

text \<open>The local variables of \<open>_translate\<close> before the commit, for the example chunk.\<close>

definition ex_acc :: "(string, unit) acc" where
  "ex_acc = \<lparr>todo = [1],
     output_block_entities =
       [ex_block_entity\<lparr>be_location := (32, 0, - 14)\<rparr>,
        ex_block_entity\<lparr>be_location := (33, 0, - 14)\<rparr>],
     output_entities =
       [ex_entity\<lparr>e_location := (32, 0, - 15)\<rparr>, ex_entity\<lparr>e_location := (33, 0, - 16)\<rparr>,
        ex_entity\<lparr>e_location := (0, 0, 1)\<rparr>, ex_entity\<lparr>e_location := (1, 0, 0)\<rparr>],
     finished = [''universal_stone'', ''universal_chest'', ''universal_door''],
     palette_mappings = [(0, 0), (3, 1), (4, 0)],
     block_mappings = [((0, 0, 1), Idx 2), ((1, 0, 0), Idx 2)],
     tb_calls = [(0, None), (1, None), (2, None), (3, None), (4, None),
                 (1, Some (0, 0, 1)), (1, Some (1, 0, 0))]\<rparr>"

text \<open>The local variables of \<open>_translate\<close> after Phase 1, for the example chunk.\<close>

definition ex_acc_phase1 :: "(string, unit) acc" where
  "ex_acc_phase1 = \<lparr>todo = [1],
     output_block_entities =
       [ex_block_entity\<lparr>be_location := (32, 0, - 14)\<rparr>,
        ex_block_entity\<lparr>be_location := (33, 0, - 14)\<rparr>],
     output_entities =
       [ex_entity\<lparr>e_location := (32, 0, - 15)\<rparr>, ex_entity\<lparr>e_location := (33, 0, - 16)\<rparr>],
     finished = [''universal_stone'', ''universal_chest''],
     palette_mappings = [(0, 0), (3, 1), (4, 0)],
     block_mappings = [],
     tb_calls = [(0, None), (1, None), (2, None), (3, None), (4, None)]\<rparr>"

text \<open>The same after Phase 1 when no chunk loader is supplied.\<close>

definition ex_acc_no_loader :: "(string, unit) acc" where
  "ex_acc_no_loader = ex_acc_phase1\<lparr>todo := []\<rparr>"

definition ex_blocks_out :: blocks where
  "ex_blocks_out =
     [(0, [((0, 0, 0), 0), ((0, 0, 1), 2), ((0, 0, 2), 1), ((0, 0, 3), 0),
           ((1, 0, 0), 2), ((1, 0, 1), 0), ((1, 0, 2), 1), ((1, 0, 3), 0)])]"

text \<open>
  An entity-translate callback that yields a block, as its return type allows, and a
  chunk that holds one entity.
\<close>

definition ex_translate_entity :: "(string, unit) translate_entity_callback" where
  "ex_translate_entity input_object = Inr (Some ''universal_stone'', None, [])"

definition ex_chunk_with_entity :: "unit chunk" where
  "ex_chunk_with_entity =
     ex_chunk\<lparr>entities := [ex_entity\<lparr>e_location := (32.5, 0.5, - 15.5)\<rparr>]\<rparr>"

text \<open>
  A chunk loader that knows the neighbour at the relative chunk position \<open>(1, 0)\<close>; the
  neighbour's palette holds a tuple entry, and the neighbour has a block entity.
\<close>

definition ex_neighbour :: "unit chunk" where
  "ex_neighbour =
     ex_chunk\<lparr>cx := 3, block_entities := [ex_block_entity\<lparr>be_location := (48, 0, - 13)\<rparr>]\<rparr>"

definition ex_neighbour_palette :: "string entry list" where
  "ex_neighbour_palette =
     [Blk ''stone'', Blk ''door'', Blk ''junk'', Blk ''chest'',
      Tup [(Some 17, ''bed''), (None, ''water'')]]"

definition ex_load :: "(string, unit) get_chunk_callback" where
  "ex_load x z =
     (if x = 1 \<and> z = 0 then Inr (ex_neighbour, ex_neighbour_palette) else Inl CallbackError)"

text \<open>
  A version whose block rules map \<open>stone\<close> and \<open>water\<close> to \<open>universal_stone\<close> and
  \<open>universal_water\<close> and back, never asking for context, and a chunk at \<open>(2, -1)\<close> whose
  palette holds stone, water and stone with a water layer on top.
\<close>

definition ex_universal :: "string \<Rightarrow> string" where
  "ex_universal l = ''universal_'' @ l"

definition ex_version :: "(string, unit) version" where
  "ex_version = \<lparr>
     block_to_universal = (\<lambda>b get_block.
       if b = Block ''stone'' [] \<or> b = Block ''water'' []
       then Inr (BlockObject (Block (ex_universal (base_layer b)) []), None, False)
       else Inr (NoObject, None, False)),
     block_from_universal = (\<lambda>b get_block.
       if b = Block ''universal_stone'' [] then Inr (BlockObject (Block ''stone'' []), None, False)
       else if b = Block ''universal_water'' []
       then Inr (BlockObject (Block ''water'' []), None, False)
       else Inr (NoObject, None, False)),
     biome_to_universal = (\<lambda>b. b + 100),
     biome_from_universal = (\<lambda>b. b - 100),
     block_entity_map = None,
     block_entity_map_inverse = (\<lambda>n. None)\<rparr>"

definition ex_rt_chunk :: "unit chunk" where
  "ex_rt_chunk = \<lparr>cx = 2, cz = - 1,
     blocks = [(0, [((0, 0, 0), 1), ((0, 0, 1), 1), ((1, 0, 0), 0), ((1, 0, 1), 2)])],
     block_entities = [], entities = [], biomes = [1, 1, 4]\<rparr>"

definition ex_rt_palette :: "string block entry list" where
  "ex_rt_palette =
     [Blk (Block ''stone'' []), Blk (Block ''water'' []), Blk (Block ''stone'' [''water''])]"

section \<open>Biome remapping: results\<close>

lemma call_each_counted: "call_each (counted f) xs n = (map f xs, n + length xs)"
  by (induction xs arbitrary: n) (simp_all add: counted_def)

lemma index_of_nth: "v \<in> set xs \<Longrightarrow> index_of xs v < length xs \<and> xs ! index_of xs v = v"
  by (induction xs) auto

lemma unique_expand:
  "x \<in> set ar \<Longrightarrow> map f (sort (remdups ar)) ! index_of (sort (remdups ar)) x = f x"
  using index_of_nth[of x "sort (remdups ar)"] by simp

text \<open>
  Claim C3. For every biome array, \<open>_biomes_to_universal\<close> and \<open>_biomes_from_universal\<close>
  return the array obtained by applying the per-value rule to every cell, and the rule is
  invoked once per distinct value of the array: a rule that counts its invocations has
  been called \<open>card (set biome_array)\<close> times more when the function returns.
\<close>

theorem biomes_translated_once_per_distinct_value:
  "biomes_to_universal (counted f) biome_array n = (map f biome_array, n + card (set biome_array))
   \<and> biomes_from_universal (counted g) biome_array n = (map g biome_array, n + card (set biome_array))"
  by (simp add: biomes_to_universal_def biomes_from_universal_def numpy_unique_def Let_def
      call_each_counted unique_expand length_remdups_card_conv)

section \<open>Auxiliary facts\<close>

lemma ebind_Inr [simp]: "ebind (Inr v) f = f v"
  by (simp add: ebind_def)

lemma ebind_Inl [simp]: "ebind (Inl e) f = Inl e"
  by (simp add: ebind_def)

lemma ebind_eq_Inr: "ebind m f = Inr r \<longleftrightarrow> (\<exists>v. m = Inr v \<and> f v = Inr r)"
  by (cases m) simp_all

lemma efold_append: "efold f (xs @ ys) s = ebind (efold f xs s) (efold f ys)"
  by (induction xs arbitrary: s) (simp_all add: ebind_def split: sum.splits)

lemma efold_invariant:
  assumes "efold f xs s = Inr s'" and "P s"
    and "\<And>x t t'. x \<in> set xs \<Longrightarrow> P t \<Longrightarrow> f x t = Inr t' \<Longrightarrow> P t'"
  shows "P s'"
  using assms
proof (induction xs arbitrary: s)
  case Nil
  then show ?case by simp
next
  case (Cons x xs)
  from Cons.prems(1) obtain t where t: "f x s = Inr t" and rest: "efold f xs t = Inr s'"
    by (auto simp: ebind_eq_Inr)
  have "P t" using Cons.prems(2,3) t by auto
  then show ?case using Cons.IH[OF rest] Cons.prems(3) by auto
qed

lemma assign_where_map:
  "assign_where a old new (map (\<lambda>(p, v). (p, g v)) a) =
   map (\<lambda>(p, v). (p, if v = old then new else g v)) a"
  by (induction a) (auto simp: assign_where_def)

lemma fold_assign_where:
  "fold (\<lambda>(old, new) nb. assign_where a old new nb) pm (map (\<lambda>(p, v). (p, g v)) a) =
   map (\<lambda>(p, v). (p, case map_of (rev pm) v of Some n \<Rightarrow> n | None \<Rightarrow> g v)) a"
proof (induction pm arbitrary: g)
  case Nil
  then show ?case by simp
next
  case (Cons m pm)
  obtain old new where m: "m = (old, new)" by (cases m)
  show ?case
    by (auto simp: m assign_where_map Cons.IH map_add_def split: option.splits)
qed

lemma rewrite_sub_chunk_map:
  "rewrite_sub_chunk pm a =
   map (\<lambda>(p, v). (p, case map_of (rev pm) v of Some n \<Rightarrow> n | None \<Rightarrow> 0)) a"
  using fold_assign_where[of a pm "\<lambda>_. 0"]
  by (simp add: rewrite_sub_chunk_def zeros_like_def)

lemma map_of_rev_distinct: "distinct (map fst xs) \<Longrightarrow> map_of (rev xs) = map_of xs"
  by (induction xs) (auto simp: map_add_def fun_eq_iff split: option.splits dest: map_of_SomeD
      intro: rev_image_eqI)

lemma commit_values_idx:
  "efold commit_step bm bs = Inr bs' \<Longrightarrow> (p, w) \<in> set bm \<Longrightarrow> \<exists>k. w = Idx k"
proof (induction bm arbitrary: bs)
  case Nil
  then show ?case by simp
next
  case (Cons m bm)
  from Cons.prems(1) obtain bs1 where s1: "commit_step m bs = Inr bs1"
    and rest: "efold commit_step bm bs1 = Inr bs'"
    by (auto simp: ebind_eq_Inr)
  show ?case
  proof (cases "(p, w) = m")
    case True
    with s1 show ?thesis
      by (auto simp: commit_step_def split: new_cell.splits)
  next
    case False
    with Cons.prems(2) have "(p, w) \<in> set bm" by auto
    then show ?thesis using Cons.IH[OF rest] by simp
  qed
qed

lemma section_key:
  fixes y cy y' :: int
  assumes "0 \<le> y" "y < 16"
  shows "(y' div 16 = cy \<and> y' mod 16 = y) \<longleftrightarrow> y' = y + cy * 16"
  using assms by auto

lemma blocks_setitem_cell:
  assumes "blocks_setitem bs p' k = Inr bs1"
    and "map_of bs cy = Some a" and "map_of a (x, y, z) = Some v" and "0 \<le> y" and "y < 16"
  shows "\<exists>a1. map_of bs1 cy = Some a1 \<and>
           map_of a1 (x, y, z) = Some (if p' = (x, y + cy * 16, z) then k else v)"
proof -
  obtain x' y' z' where p': "p' = (x', y', z')" by (cases p') auto
  from assms(1) obtain s w where s: "map_of bs (y' div 16) = Some s"
    and w: "map_of s (x', y' mod 16, z') = Some w"
    and bs1: "bs1 = AList.update (y' div 16) (AList.update (x', y' mod 16, z') k s) bs"
    by (auto simp: blocks_setitem_def p' split: option.splits)
  have key: "(y' div 16 = cy \<and> y' mod 16 = y) \<longleftrightarrow> y' = y + cy * 16"
    using section_key[OF assms(4,5)] .
  show ?thesis
  proof (cases "y' div 16 = cy")
    case True
    with s assms(2) have "s = a" by simp
    then show ?thesis using True assms(3) key
      by (auto simp: bs1 p' update_conv')
  next
    case False
    then show ?thesis using assms(2,3) key
      by (auto simp: bs1 p' update_conv')
  qed
qed

lemma commit_overrides_cell:
  assumes "efold commit_step bm bs = Inr bs'"
    and "map_of bs cy = Some a" and "map_of a (x, y, z) = Some v" and "0 \<le> y" and "y < 16"
  shows "\<exists>a'. map_of bs' cy = Some a' \<and>
           map_of a' (x, y, z) =
             Some (case map_of (rev bm) (x, y + cy * 16, z) of Some (Idx k) \<Rightarrow> k | _ \<Rightarrow> v)"
  using assms
proof (induction bm arbitrary: bs a v)
  case Nil
  then show ?case by simp
next
  case (Cons m bm)
  obtain p' w where m: "m = (p', w)" by (cases m)
  from Cons.prems(1) obtain bs1 where s1: "commit_step m bs = Inr bs1"
    and rest: "efold commit_step bm bs1 = Inr bs'"
    by (auto simp: ebind_eq_Inr)
  from s1 obtain k where w: "w = Idx k" and set1: "blocks_setitem bs p' k = Inr bs1"
    by (auto simp: commit_step_def m split: new_cell.splits)
  from blocks_setitem_cell[OF set1 Cons.prems(2,3,4,5)]
  obtain a1 where a1: "map_of bs1 cy = Some a1"
    and v1: "map_of a1 (x, y, z) = Some (if p' = (x, y + cy * 16, z) then k else v)"
    by blast
  from Cons.IH[OF rest a1 v1 Cons.prems(4,5)]
  obtain a' where a': "map_of bs' cy = Some a'"
    and v': "map_of a' (x, y, z) =
      Some (case map_of (rev bm) (x, y + cy * 16, z) of Some (Idx k') \<Rightarrow> k'
            | _ \<Rightarrow> (if p' = (x, y + cy * 16, z) then k else v))"
    by blast
  have noraw: "map_of (rev bm) (x, y + cy * 16, z) \<noteq> Some (Raw b)" for b
  proof
    assume "map_of (rev bm) (x, y + cy * 16, z) = Some (Raw b)"
    then have "((x, y + cy * 16, z), Raw b) \<in> set bm"
      using map_of_SomeD by fastforce
    then show False using commit_values_idx[OF rest] by blast
  qed
  have "(case map_of (rev (m # bm)) (x, y + cy * 16, z) of Some (Idx k') \<Rightarrow> k' | _ \<Rightarrow> v) =
        (case map_of (rev bm) (x, y + cy * 16, z) of Some (Idx k') \<Rightarrow> k'
            | _ \<Rightarrow> (if p' = (x, y + cy * 16, z) then k else v))"
    using noraw by (auto simp: m w map_add_def split: option.splits new_cell.splits)
  then show ?case using a' v' by simp
qed

lemma commit_cell:
  assumes "commit chunk st = Inr chunk'"
    and "map_of (blocks chunk) cy = Some a" and "map_of a (x, y, z) = Some v"
    and "0 \<le> y" and "y < 16"
  shows "\<exists>a'. map_of (blocks chunk') cy = Some a' \<and>
           map_of a' (x, y, z) =
             Some (case map_of (rev (block_mappings st)) (x, y + cy * 16, z) of
                     Some (Idx k) \<Rightarrow> k
                   | _ \<Rightarrow> (case map_of (rev (palette_mappings st)) v of
                              Some n \<Rightarrow> n | None \<Rightarrow> 0))"
proof -
  let ?bs0 = "map (\<lambda>(cy, old_blocks). (cy, rewrite_sub_chunk (palette_mappings st) old_blocks))
                 (blocks chunk)"
  from assms(1) obtain bs' where fold: "efold commit_step (block_mappings st) ?bs0 = Inr bs'"
    and chunk': "blocks chunk' = bs'"
    by (auto simp: commit_def ebind_eq_Inr)
  have sec: "map_of ?bs0 cy = Some (rewrite_sub_chunk (palette_mappings st) a)"
    using assms(2) by (simp add: map_of_map)
  have cell: "map_of (rewrite_sub_chunk (palette_mappings st) a) (x, y, z) =
      Some (case map_of (rev (palette_mappings st)) v of Some n \<Rightarrow> n | None \<Rightarrow> 0)"
    using assms(3) by (simp add: rewrite_sub_chunk_map map_of_map)
  from commit_overrides_cell[OF fold sec cell assms(4,5)] show ?thesis
    by (simp add: chunk')
qed

lemma efold_appends:
  assumes "\<And>x t t'. f x t = Inr t' \<Longrightarrow> g t' = g t @ c x"
  shows "efold f xs s = Inr s' \<Longrightarrow> g s' = g s @ concat (map c xs)"
proof (induction xs arbitrary: s)
  case Nil
  then show ?case by simp
next
  case (Cons x xs)
  from Cons.prems obtain t where t: "f x s = Inr t" and rest: "efold f xs t = Inr s'"
    by (auto simp: ebind_eq_Inr)
  show ?case using Cons.IH[OF rest] assms[OF t] by simp
qed

lemma efold_unchanged:
  assumes "\<And>x t t'. f x t = Inr t' \<Longrightarrow> g t' = g t"
  shows "efold f xs s = Inr s' \<Longrightarrow> g s' = g s"
proof (induction xs arbitrary: s)
  case Nil
  then show ?case by simp
next
  case (Cons x xs)
  from Cons.prems obtain t where t: "f x s = Inr t" and rest: "efold f xs t = Inr s'"
    by (auto simp: ebind_eq_Inr)
  show ?case using Cons.IH[OF rest] assms[OF t] by simp
qed

lemma where_eq_set: "p \<in> set (where_eq a i) \<longleftrightarrow> (p, i) \<in> set a"
  by (auto simp: where_eq_def intro: rev_image_eqI)

lemma where_eq_distinct: "distinct (map fst a) \<Longrightarrow> distinct (where_eq a i)"
  by (simp add: where_eq_def distinct_map_filter)

lemma occurrences_set:
  "(cy, p) \<in> set (occurrences bs i) \<longleftrightarrow> (\<exists>a. (cy, a) \<in> set bs \<and> (p, i) \<in> set a)"
  by (force simp: occurrences_def where_eq_set)

lemma occurrences_distinct:
  assumes "wf_blocks bs"
  shows "distinct (occurrences bs i)"
proof -
  have "distinct (map fst bs) \<Longrightarrow> \<forall>(cy, a) \<in> set bs. distinct (map fst a) \<Longrightarrow>
        distinct (concat (map (\<lambda>(cy, a). map (Pair cy) (where_eq a i)) bs))"
  proof (induction bs)
    case Nil
    then show ?case by simp
  next
    case (Cons s bs)
    obtain cy a where s: "s = (cy, a)" by (cases s)
    have "distinct (map (Pair cy) (where_eq a i))"
      using Cons.prems(2) by (simp add: s distinct_map where_eq_distinct inj_on_def)
    moreover have "set (map (Pair cy) (where_eq a i)) \<inter>
        set (concat (map (\<lambda>(cy, a). map (Pair cy) (where_eq a i)) bs)) = {}"
      using Cons.prems(1) by (auto simp: s intro: rev_image_eqI)
    ultimately show ?case using Cons by (simp add: s)
  qed
  then show ?thesis using assms
    by (auto simp: wf_blocks_def occurrences_def list_all_iff)
qed

lemma wf_blocks_cell:
  assumes "wf_blocks bs"
  shows "((cy, a) \<in> set bs \<and> (p, v) \<in> set a) \<longleftrightarrow>
         (map_of bs cy = Some a \<and> map_of a p = Some v)"
  using assms
  by (auto simp: wf_blocks_def list_all_iff dest: map_of_SomeD)

lemma get_add_block_facts:
  assumes "get_add_block b bm = (k, bm')"
  shows "k < length bm'" and "bm' ! k = b" and "\<exists>ys. bm' = bm @ ys"
    and "distinct bm \<Longrightarrow> distinct bm'" and "set bm' = insert b (set bm)"
  using assms index_of_nth[of b bm]
  by (auto simp: get_add_block_def split: if_splits)

lemma phase1_body_fields:
  "(todo (phase1_body chunk gcc es i (ob, obe, oe, extra) st) =
     (if extra \<and> \<not> Option.is_none gcc then todo st @ [i] else todo st))
   \<and> (tb_calls (phase1_body chunk gcc es i (ob, obe, oe, extra) st) = tb_calls st @ [(i, None)])
   \<and> (block_mappings (phase1_body chunk gcc es i (ob, obe, oe, extra) st) = block_mappings st)
   \<and> (output_block_entities (phase1_body chunk gcc es i (ob, obe, oe, extra) st) =
        output_block_entities st @
        (case (ob, obe) of
           (Some b, Some be) \<Rightarrow>
             if extra \<and> \<not> Option.is_none gcc then []
             else map (\<lambda>(cy, x, y, z).
                    new_at_location be (x + cx chunk * 16, y + cy * 16, z + cz chunk * 16))
                   (occurrences (blocks chunk) i)
         | _ \<Rightarrow> []))
   \<and> (finished (phase1_body chunk gcc es i (ob, obe, oe, extra) st) =
     (if extra \<and> \<not> Option.is_none gcc then finished st
      else case ob of None \<Rightarrow> finished st | Some b \<Rightarrow> snd (get_add_block b (finished st))))
   \<and> (palette_mappings (phase1_body chunk gcc es i (ob, obe, oe, extra) st) =
     (if extra \<and> \<not> Option.is_none gcc then palette_mappings st
      else case ob of None \<Rightarrow> palette_mappings st
           | Some b \<Rightarrow> AList.update i (fst (get_add_block b (finished st))) (palette_mappings st)))"
  by (cases ob; cases obe) (simp_all add: phase1_body_def Let_def split_beta)

lemma phase2_body_fields:
  "(todo (phase2_body chunk es index xyz (ob, obe, oe, extra) st) = todo st)
   \<and> (palette_mappings (phase2_body chunk es index xyz (ob, obe, oe, extra) st) = palette_mappings st)
   \<and> (tb_calls (phase2_body chunk es index xyz (ob, obe, oe, extra) st) =
     tb_calls st @ [(index, Some xyz)])
   \<and> (finished (phase2_body chunk es index xyz (ob, obe, oe, extra) st) =
     (case ob of None \<Rightarrow> finished st | Some b \<Rightarrow> snd (get_add_block b (finished st))))
   \<and> (block_mappings (phase2_body chunk es index xyz (ob, obe, oe, extra) st) =
     (case ob of None \<Rightarrow> block_mappings st
      | Some b \<Rightarrow> AList.update xyz (Idx (fst (get_add_block b (finished st)))) (block_mappings st)))"
  by (cases xyz; cases ob; cases obe) (simp_all add: phase2_body_def Let_def split_beta)

lemma entity_body_fields:
  "(todo (entity_body ent (ob, obe, oe) st) = todo st)
   \<and> (palette_mappings (entity_body ent (ob, obe, oe) st) = palette_mappings st)
   \<and> (tb_calls (entity_body ent (ob, obe, oe) st) = tb_calls st)
   \<and> (finished (entity_body ent (ob, obe, oe) st) = finished st)
   \<and> (block_mappings (entity_body ent (ob, obe, oe) st) =
     (case ob of None \<Rightarrow> block_mappings st
      | Some b \<Rightarrow>
          AList.update (case e_location ent of (ex, ey, ez) \<Rightarrow> (\<lfloor>ex\<rfloor>, \<lfloor>ey\<rfloor>, \<lfloor>ez\<rfloor>)) (Raw b)
            (block_mappings st)))"
  by (cases ob; cases obe) (simp_all add: entity_body_def Let_def split_beta)

lemma phase1_stepE:
  assumes "phase1_step chunk gcc tb es (i, p) st = Inr st'"
  obtains r where "tb p None = Inr r" and "st' = phase1_body chunk gcc es i r st"
  using assms by (auto simp: phase1_step_def ebind_eq_Inr)

lemma phase2_stepE:
  assumes "phase2_step chunk palette gcc tb es (index, cy, (x, y0, z)) st = Inr st'"
  obtains ci input_block r where
    "blocks_getitem (blocks chunk) (x, y0 + cy * 16, z) = Inr ci"
    and "getitem palette ci = Inr input_block"
    and "tb input_block (Some (get_block_at chunk palette gcc (x, y0 + cy * 16, z))) = Inr r"
    and "st' = phase2_body chunk es index (x, y0 + cy * 16, z) r st"
  using assms by (auto simp: phase2_step_def ebind_eq_Inr Let_def)

lemma entity_stepE:
  assumes "entity_step te ent st = Inr st'"
  obtains r where "te ent = Inr r" and "st' = entity_body ent r st"
  using assms by (auto simp: entity_step_def ebind_eq_Inr)

lemma efold_unions:
  assumes "\<And>x t t'. f x t = Inr t' \<Longrightarrow> g t' = g t \<union> c x"
  shows "efold f xs s = Inr s' \<Longrightarrow> g s' = g s \<union> \<Union> (c ` set xs)"
proof (induction xs arbitrary: s)
  case Nil
  then show ?case by simp
next
  case (Cons x xs)
  from Cons.prems obtain t where t: "f x s = Inr t" and rest: "efold f xs t = Inr s'"
    by (auto simp: ebind_eq_Inr)
  show ?case using Cons.IH[OF rest] assms[OF t] by auto
qed

lemma efold_member_then_invariant:
  assumes "efold f xs s = Inr s'" and "x \<in> set xs"
    and "\<And>t t'. f x t = Inr t' \<Longrightarrow> Q t'"
    and "\<And>y t t'. y \<in> set xs \<Longrightarrow> Q t \<Longrightarrow> f y t = Inr t' \<Longrightarrow> Q t'"
  shows "Q s'"
  using assms(1,2,4)
proof (induction xs arbitrary: s)
  case Nil
  then show ?case by simp
next
  case (Cons y ys)
  from Cons.prems(1) obtain t where t: "f y s = Inr t" and rest: "efold f ys t = Inr s'"
    by (auto simp: ebind_eq_Inr)
  show ?case
  proof (cases "x = y")
    case True
    then have "Q t" using assms(3) t by simp
    then show ?thesis
      using efold_invariant[OF rest, of Q] Cons.prems(3) by auto
  next
    case False
    then have "x \<in> set ys" using Cons.prems(2) by simp
    then show ?thesis using Cons.IH[OF rest] Cons.prems(3) by auto
  qed
qed

lemma concat_map_if_singleton:
  "concat (map (\<lambda>x. if P x then [h x] else []) xs) = map h (filter P xs)"
  by (induction xs) simp_all

lemma phase1_step_todo:
  assumes "phase1_step chunk gcc tb es ib st = Inr st'"
  shows "todo st' = todo st @
     (if \<not> Option.is_none gcc \<and>
          (case tb (snd ib) None of Inr (ob, obe, oe, extra) \<Rightarrow> extra | Inl e \<Rightarrow> False)
      then [fst ib] else [])"
proof -
  obtain i p where ib: "ib = (i, p)" by (cases ib)
  from assms obtain r where r: "tb p None = Inr r" and st': "st' = phase1_body chunk gcc es i r st"
    unfolding ib by (rule phase1_stepE)
  obtain ob obe oe extra where rr: "r = (ob, obe, oe, extra)" by (cases r)
  show ?thesis by (auto simp: ib r st' rr phase1_body_fields)
qed

lemma phase1_step_calls:
  assumes "phase1_step chunk gcc tb es ib st = Inr st'"
  shows "tb_calls st' = tb_calls st @ [(fst ib, None)]"
proof -
  obtain i p where ib: "ib = (i, p)" by (cases ib)
  from assms obtain r where r: "tb p None = Inr r" and st': "st' = phase1_body chunk gcc es i r st"
    unfolding ib by (rule phase1_stepE)
  obtain ob obe oe extra where rr: "r = (ob, obe, oe, extra)" by (cases r)
  show ?thesis by (simp add: ib r st' rr phase1_body_fields)
qed

lemma phase1_step_keys:
  assumes "phase1_step chunk gcc tb es ib st = Inr st'"
  shows "fst ` set (palette_mappings st') = fst ` set (palette_mappings st) \<union>
     (if (\<exists>b obe oe extra. tb (snd ib) None = Inr (Some b, obe, oe, extra) \<and>
                             \<not> (extra \<and> \<not> Option.is_none gcc))
      then {fst ib} else {})"
proof -
  obtain i p where ib: "ib = (i, p)" by (cases ib)
  from assms obtain r where r: "tb p None = Inr r" and st': "st' = phase1_body chunk gcc es i r st"
    unfolding ib by (rule phase1_stepE)
  obtain ob obe oe extra where rr: "r = (ob, obe, oe, extra)" by (cases r)
  show ?thesis
    by (cases ob) (auto simp: ib r st' rr phase1_body_fields dom_update)
qed

lemma phase1_todo:
  assumes "phase1 chunk palette gcc tb es = Inr st"
  shows "todo st = map fst (filter (\<lambda>ib. \<not> Option.is_none gcc \<and>
            (case tb (snd ib) None of Inr (ob, obe, oe, extra) \<Rightarrow> extra | Inl e \<Rightarrow> False))
          (enumerate 0 palette))"
proof -
  define c where "c = (\<lambda>ib :: nat \<times> 'a entry. if \<not> Option.is_none gcc \<and>
            (case tb (snd ib) None of Inr (ob, obe, oe, extra) \<Rightarrow> extra | Inl e \<Rightarrow> False)
            then [fst ib] else [])"
  have step: "\<And>x t t'. phase1_step chunk gcc tb es x t = Inr t' \<Longrightarrow> todo t' = todo t @ c x"
    unfolding c_def by (rule phase1_step_todo)
  show ?thesis
    using efold_appends[where f = "phase1_step chunk gcc tb es" and g = todo and c = c,
        OF step assms[unfolded phase1_def]]
    by (simp add: init_acc_def c_def concat_map_if_singleton)
qed

lemma phase1_calls:
  assumes "phase1 chunk palette gcc tb es = Inr st"
  shows "tb_calls st = map (\<lambda>ib. (fst ib, None)) (enumerate 0 palette)"
proof -
  define c where "c = (\<lambda>ib :: nat \<times> 'a entry. [(fst ib, None :: pos option)])"
  have step: "\<And>x t t'. phase1_step chunk gcc tb es x t = Inr t' \<Longrightarrow>
      tb_calls t' = tb_calls t @ c x"
    unfolding c_def by (rule phase1_step_calls)
  show ?thesis
    using efold_appends[where f = "phase1_step chunk gcc tb es" and g = tb_calls and c = c,
        OF step assms[unfolded phase1_def]]
    by (simp add: init_acc_def c_def)
qed

lemma phase1_keys:
  assumes "phase1 chunk palette gcc tb es = Inr st"
  shows "fst ` set (palette_mappings st) =
     {i. i < length palette \<and>
         (\<exists>b obe oe extra. tb (palette ! i) None = Inr (Some b, obe, oe, extra) \<and>
                            \<not> (extra \<and> \<not> Option.is_none gcc))}"
proof -
  define c where "c = (\<lambda>ib :: nat \<times> 'a entry.
      if (\<exists>b obe oe extra. tb (snd ib) None = Inr (Some b, obe, oe, extra) \<and>
                             \<not> (extra \<and> \<not> Option.is_none gcc))
      then {fst ib} else {})"
  have step: "\<And>x t t'. phase1_step chunk gcc tb es x t = Inr t' \<Longrightarrow>
      fst ` set (palette_mappings t') = fst ` set (palette_mappings t) \<union> c x"
    unfolding c_def by (rule phase1_step_keys)
  have keys: "fst ` set (palette_mappings st) = \<Union> (c ` set (enumerate 0 palette))"
    using efold_unions[where f = "phase1_step chunk gcc tb es"
        and g = "\<lambda>t. fst ` set (palette_mappings t)" and c = c,
        OF step assms[unfolded phase1_def]]
    by (simp add: init_acc_def)
  show ?thesis
  proof (rule set_eqI)
    fix i
    have csub: "\<And>x. c x \<subseteq> {fst x}" by (simp add: c_def)
    have "i \<in> \<Union> (c ` set (enumerate 0 palette)) \<longleftrightarrow>
          (\<exists>p. (i, p) \<in> set (enumerate 0 palette) \<and> i \<in> c (i, p))"
      using csub by fastforce
    also have "\<dots> \<longleftrightarrow> i < length palette \<and> i \<in> c (i, palette ! i)"
      by (auto simp: in_set_enumerate_eq)
    finally have A: "i \<in> \<Union> (c ` set (enumerate 0 palette)) \<longleftrightarrow>
        i < length palette \<and> i \<in> c (i, palette ! i)" .
    have B: "i \<in> c (i, palette ! i) \<longleftrightarrow>
        (\<exists>b obe oe extra. tb (palette ! i) None = Inr (Some b, obe, oe, extra) \<and>
                            \<not> (extra \<and> \<not> Option.is_none gcc))"
      by (auto simp: c_def)
    show "i \<in> fst ` set (palette_mappings st) \<longleftrightarrow>
        i \<in> {i. i < length palette \<and>
         (\<exists>b obe oe extra. tb (palette ! i) None = Inr (Some b, obe, oe, extra) \<and>
                            \<not> (extra \<and> \<not> Option.is_none gcc))}"
      unfolding keys A B by simp
  qed
qed

lemma phase2_step_parts:
  assumes "phase2_step chunk palette gcc tb es job st = Inr st'"
  obtains index cy x y0 z ci input_block ob obe oe extra where
    "job = (index, cy, (x, y0, z))"
    and "blocks_getitem (blocks chunk) (x, y0 + cy * 16, z) = Inr ci"
    and "getitem palette ci = Inr input_block"
    and "tb input_block (Some (get_block_at chunk palette gcc (x, y0 + cy * 16, z))) =
           Inr (ob, obe, oe, extra)"
    and "st' = phase2_body chunk es index (x, y0 + cy * 16, z) (ob, obe, oe, extra) st"
proof -
  obtain index cy x y0 z where job: "job = (index, cy, (x, y0, z))"
    by (cases job) auto
  from assms obtain ci input_block r where
    "blocks_getitem (blocks chunk) (x, y0 + cy * 16, z) = Inr ci"
    "getitem palette ci = Inr input_block"
    "tb input_block (Some (get_block_at chunk palette gcc (x, y0 + cy * 16, z))) = Inr r"
    "st' = phase2_body chunk es index (x, y0 + cy * 16, z) r st"
    unfolding job by (rule phase2_stepE)
  then show ?thesis using that[OF job] by (cases r) auto
qed

lemma phase2_step_todo:
  "phase2_step chunk palette gcc tb es job st = Inr st' \<Longrightarrow> todo st' = todo st"
  by (erule phase2_step_parts) (simp add: phase2_body_fields)

lemma phase2_step_palette_mappings:
  "phase2_step chunk palette gcc tb es job st = Inr st' \<Longrightarrow>
   palette_mappings st' = palette_mappings st"
  by (erule phase2_step_parts) (simp add: phase2_body_fields)

lemma phase2_step_calls:
  "phase2_step chunk palette gcc tb es job st = Inr st' \<Longrightarrow>
   tb_calls st' = tb_calls st @
     [(case job of (index, cy, (x, y0, z)) \<Rightarrow> (index, Some (x, y0 + cy * 16, z)))]"
  by (erule phase2_step_parts) (simp add: phase2_body_fields)

lemma phase2_todo:
  "phase2 chunk palette gcc tb es st = Inr st' \<Longrightarrow> todo st' = todo st"
  unfolding phase2_def by (rule efold_unchanged[where g = todo, OF phase2_step_todo])

lemma phase2_palette_mappings:
  "phase2 chunk palette gcc tb es st = Inr st' \<Longrightarrow> palette_mappings st' = palette_mappings st"
  unfolding phase2_def
  by (rule efold_unchanged[where g = palette_mappings, OF phase2_step_palette_mappings])

lemma concat_jobs:
  "concat (map (\<lambda>job. [d job]) (concat (map (\<lambda>i. map (Pair i) (h i)) ts))) =
   concat (map (\<lambda>i. map (\<lambda>occ. d (i, occ)) (h i)) ts)"
  by (induction ts) (simp_all add: comp_def)

lemma phase2_calls:
  assumes "phase2 chunk palette gcc tb es st = Inr st'"
  shows "tb_calls st' = tb_calls st @
     concat (map (\<lambda>i. map (\<lambda>(cy, x, y, z). (i, Some (x, y + cy * 16, z)))
                     (occurrences (blocks chunk) i)) (todo st))"
proof -
  define c where "c = (\<lambda>job :: nat \<times> int \<times> pos.
      [(case job of (index, cy, (x, y0, z)) \<Rightarrow> (index, Some (x, y0 + cy * 16, z)))])"
  have step: "\<And>x t t'. phase2_step chunk palette gcc tb es x t = Inr t' \<Longrightarrow>
      tb_calls t' = tb_calls t @ c x"
    unfolding c_def by (rule phase2_step_calls)
  have "concat (map c (concat (map (\<lambda>index. map (Pair index) (occurrences (blocks chunk) index))
            (todo st)))) =
        concat (map (\<lambda>i. map (\<lambda>(cy, x, y, z). (i, Some (x, y + cy * 16, z)))
                     (occurrences (blocks chunk) i)) (todo st))"
    unfolding c_def concat_jobs by (simp add: split_def)
  then show ?thesis
    using efold_appends[where f = "phase2_step chunk palette gcc tb es" and g = tb_calls
        and c = c, OF step assms[unfolded phase2_def]]
    by simp
qed

lemma occurrence_getitem:
  assumes "wf_blocks bs" and "(cy, (x, y0, z)) \<in> set (occurrences bs i)"
  shows "blocks_getitem bs (x, y0 + cy * 16, z) = Inr i"
proof -
  from assms(2) obtain a where a: "(cy, a) \<in> set bs" and c: "((x, y0, z), i) \<in> set a"
    by (auto simp: occurrences_set)
  from wf_blocks_cell[OF assms(1)] a c
  have m: "map_of bs cy = Some a" "map_of a (x, y0, z) = Some i" by blast+
  have "0 \<le> y0 \<and> y0 < 16"
    using assms(1) a c by (auto simp: wf_blocks_def list_all_iff)
  then have "(y0 + cy * 16) div 16 = cy" "(y0 + cy * 16) mod 16 = y0" by auto
  then show ?thesis using m by (simp add: blocks_getitem_def)
qed

lemma efold_member_step:
  "efold f xs s = Inr s' \<Longrightarrow> x \<in> set xs \<Longrightarrow> \<exists>t t'. f x t = Inr t'"
proof (induction xs arbitrary: s)
  case Nil
  then show ?case by simp
next
  case (Cons y ys)
  from Cons.prems(1) obtain t where t: "f y s = Inr t" and rest: "efold f ys t = Inr s'"
    by (auto simp: ebind_eq_Inr)
  show ?case
  proof (cases "x = y")
    case True
    then show ?thesis using t by blast
  next
    case False
    then show ?thesis using Cons.IH[OF rest] Cons.prems(2) by simp
  qed
qed

lemma phase2_step_at_key:
  assumes step: "phase2_step chunk palette gcc tb es job st = Inr st'"
    and det: "blocks_getitem (blocks chunk) key = Inr ci" "getitem palette ci = Inr ib"
      "tb ib (Some (get_block_at chunk palette gcc key)) = Inr (ob, obe, oe, extra)"
  shows "\<exists>ys. finished st' = finished st @ ys"
    and "ob = None \<Longrightarrow> map_of (block_mappings st') key = map_of (block_mappings st) key"
    and "\<And>b. ob = Some b \<Longrightarrow> (case job of (index, cy, (x, y0, z)) \<Rightarrow> (x, y0 + cy * 16, z)) = key \<Longrightarrow>
          \<exists>k. map_of (block_mappings st') key = Some (Idx k) \<and> k < length (finished st') \<and>
              finished st' ! k = b"
    and "(case job of (index, cy, (x, y0, z)) \<Rightarrow> (x, y0 + cy * 16, z)) \<noteq> key \<Longrightarrow>
          map_of (block_mappings st') key = map_of (block_mappings st) key"
proof -
  from step obtain index cy x y0 z ci' ib' ob' obe' oe' extra' where
    job: "job = (index, cy, (x, y0, z))"
    and g: "blocks_getitem (blocks chunk) (x, y0 + cy * 16, z) = Inr ci'"
    and p: "getitem palette ci' = Inr ib'"
    and r: "tb ib' (Some (get_block_at chunk palette gcc (x, y0 + cy * 16, z))) =
           Inr (ob', obe', oe', extra')"
    and st': "st' = phase2_body chunk es index (x, y0 + cy * 16, z) (ob', obe', oe', extra') st"
    by (rule phase2_step_parts)
  have same: "(x, y0 + cy * 16, z) = key \<Longrightarrow> ob' = ob"
    using det g p r by auto
  show "\<exists>ys. finished st' = finished st @ ys"
  proof (cases ob')
    case None
    then show ?thesis by (simp add: st' phase2_body_fields)
  next
    case (Some b')
    obtain k fin where ga: "get_add_block b' (finished st) = (k, fin)"
      by (cases "get_add_block b' (finished st)")
    then show ?thesis using get_add_block_facts(3)[OF ga]
      by (simp add: st' phase2_body_fields Some)
  qed
  show "map_of (block_mappings st') key = map_of (block_mappings st) key" if "ob = None"
  proof (cases "(x, y0 + cy * 16, z) = key")
    case True
    then have "ob' = None" using same that by simp
    then show ?thesis by (simp add: st' phase2_body_fields)
  next
    case False
    then show ?thesis
      by (cases ob') (simp_all add: st' phase2_body_fields update_conv')
  qed
  show "\<exists>k. map_of (block_mappings st') key = Some (Idx k) \<and> k < length (finished st') \<and>
              finished st' ! k = b"
    if "ob = Some b" "(case job of (index, cy, (x, y0, z)) \<Rightarrow> (x, y0 + cy * 16, z)) = key" for b
  proof -
    from that have k: "(x, y0 + cy * 16, z) = key" by (simp add: job)
    then have ob': "ob' = Some b" using same that by simp
    obtain k fin where ga: "get_add_block b (finished st) = (k, fin)"
      by (cases "get_add_block b (finished st)")
    show ?thesis
      using get_add_block_facts(1,2)[OF ga] k
      by (simp add: st' phase2_body_fields ob' ga update_conv')
  qed
  show "map_of (block_mappings st') key = map_of (block_mappings st) key"
    if "(case job of (index, cy, (x, y0, z)) \<Rightarrow> (x, y0 + cy * 16, z)) \<noteq> key"
    using that by (cases ob') (simp_all add: job st' phase2_body_fields update_conv')
qed

lemma phase2_records_position:
  assumes run: "efold (phase2_step chunk palette gcc tb es) jobs s = Inr s'"
    and mem: "(index, cy, (x, y0, z)) \<in> set jobs"
  shows "\<exists>ci ib ob obe oe extra.
     blocks_getitem (blocks chunk) (x, y0 + cy * 16, z) = Inr ci \<and>
     getitem palette ci = Inr ib \<and>
     tb ib (Some (get_block_at chunk palette gcc (x, y0 + cy * 16, z))) = Inr (ob, obe, oe, extra) \<and>
     (case ob of
        Some b \<Rightarrow> \<exists>k. map_of (block_mappings s') (x, y0 + cy * 16, z) = Some (Idx k) \<and>
                     k < length (finished s') \<and> finished s' ! k = b
      | None \<Rightarrow> map_of (block_mappings s') (x, y0 + cy * 16, z) =
                 map_of (block_mappings s) (x, y0 + cy * 16, z))"
proof -
  let ?key = "(x, y0 + cy * 16, z)"
  let ?job = "(index, cy, (x, y0, z))"
  from efold_member_step[OF run mem] obtain t t' where
    "phase2_step chunk palette gcc tb es ?job t = Inr t'" by blast
  then obtain ci ib ob obe oe extra where
    g: "blocks_getitem (blocks chunk) ?key = Inr ci"
    and p: "getitem palette ci = Inr ib"
    and r: "tb ib (Some (get_block_at chunk palette gcc ?key)) = Inr (ob, obe, oe, extra)"
    by (elim phase2_step_parts) auto
  note at_key = phase2_step_at_key[where chunk = chunk and palette = palette and gcc = gcc
      and tb = tb and es = es and key = ?key, OF _ g p r]
  have "case ob of
        Some b \<Rightarrow> \<exists>k. map_of (block_mappings s') ?key = Some (Idx k) \<and>
                     k < length (finished s') \<and> finished s' ! k = b
      | None \<Rightarrow> map_of (block_mappings s') ?key = map_of (block_mappings s) ?key"
  proof (cases ob)
    case None
    have "map_of (block_mappings s') ?key = map_of (block_mappings s) ?key"
      using run
    proof (rule efold_invariant[where P = "\<lambda>t. map_of (block_mappings t) ?key =
          map_of (block_mappings s) ?key"])
      show "map_of (block_mappings s) ?key = map_of (block_mappings s) ?key" by simp
    next
      fix y t t'
      assume "map_of (block_mappings t) ?key = map_of (block_mappings s) ?key"
        and "phase2_step chunk palette gcc tb es y t = Inr t'"
      then show "map_of (block_mappings t') ?key = map_of (block_mappings s) ?key"
        using at_key(2)[OF _ None] by simp
    qed
    then show ?thesis by (simp add: None)
  next
    case (Some b)
    let ?Q = "\<lambda>t. \<exists>k. map_of (block_mappings t) ?key = Some (Idx k) \<and>
                     k < length (finished t) \<and> finished t ! k = b"
    have "?Q s'"
      using run mem
    proof (rule efold_member_then_invariant[where Q = ?Q])
      fix t t'
      assume "phase2_step chunk palette gcc tb es ?job t = Inr t'"
      from at_key(3)[OF this Some] show "?Q t'" by simp
    next
      fix y t t'
      assume q: "?Q t" and st: "phase2_step chunk palette gcc tb es y t = Inr t'"
      show "?Q t'"
      proof (cases "(case y of (index, cy, (x, y0, z)) \<Rightarrow> (x, y0 + cy * 16, z)) = ?key")
        case True
        from at_key(3)[OF st Some True] show ?thesis .
      next
        case False
        from q obtain k where k: "map_of (block_mappings t) ?key = Some (Idx k)"
          "k < length (finished t)" "finished t ! k = b" by blast
        from at_key(1)[OF st] obtain ys where ys: "finished t' = finished t @ ys" by blast
        have "map_of (block_mappings t') ?key = Some (Idx k)"
          using at_key(4)[OF st False] k(1) by simp
        then show ?thesis using k(2,3) ys by (auto simp: nth_append)
      qed
    qed
    then show ?thesis by (simp add: Some)
  qed
  then show ?thesis using g p r by blast
qed

lemma phase1_step_block_mappings:
  assumes "phase1_step chunk gcc tb es ib st = Inr st'"
  shows "block_mappings st' = block_mappings st"
proof -
  obtain i p where ib: "ib = (i, p)" by (cases ib)
  from assms obtain r where r: "tb p None = Inr r" and st': "st' = phase1_body chunk gcc es i r st"
    unfolding ib by (rule phase1_stepE)
  obtain ob obe oe extra where rr: "r = (ob, obe, oe, extra)" by (cases r)
  show ?thesis by (simp add: st' rr phase1_body_fields)
qed

lemma phase1_block_mappings:
  assumes "phase1 chunk palette gcc tb es = Inr st"
  shows "block_mappings st = []"
  using efold_unchanged[where f = "phase1_step chunk gcc tb es" and g = block_mappings,
      OF phase1_step_block_mappings assms[unfolded phase1_def]]
  by (simp add: init_acc_def)

lemma set_update_subset: "set (AList.update k v al) \<subseteq> insert (k, v) (set al)"
  by (induction al) auto

lemma phase1_step_invariant:
  assumes step: "phase1_step chunk gcc tb es (i, p) st = Inr st'"
    and inv: "distinct (finished st)" "distinct (map fst (palette_mappings st))"
      "\<forall>j k. map_of (palette_mappings st) j = Some k \<longrightarrow>
         k < length (finished st) \<and> R j (finished st ! k)"
    and new: "\<And>b obe oe extra. tb p None = Inr (Some b, obe, oe, extra) \<Longrightarrow> R i b"
  shows "distinct (finished st') \<and> distinct (map fst (palette_mappings st')) \<and>
    (\<forall>j k. map_of (palette_mappings st') j = Some k \<longrightarrow>
         k < length (finished st') \<and> R j (finished st' ! k))"
proof -
  from step obtain r where r: "tb p None = Inr r" and st': "st' = phase1_body chunk gcc es i r st"
    by (rule phase1_stepE)
  obtain ob obe oe extra where rr: "r = (ob, obe, oe, extra)" by (cases r)
  show ?thesis
  proof (cases "(extra \<and> \<not> Option.is_none gcc) \<or> ob = None")
    case True
    then have "finished st' = finished st" "palette_mappings st' = palette_mappings st"
      by (auto simp: st' rr phase1_body_fields)
    then show ?thesis using inv by simp
  next
    case False
    then obtain b where ob: "ob = Some b" and nd: "\<not> (extra \<and> \<not> Option.is_none gcc)" by auto
    obtain k fin where ga: "get_add_block b (finished st) = (k, fin)"
      by (cases "get_add_block b (finished st)")
    have f: "finished st' = fin" and pm: "palette_mappings st' = AList.update i k (palette_mappings st)"
      using nd by (auto simp: st' rr ob ga phase1_body_fields)
    note facts = get_add_block_facts[OF ga]
    from facts(3) obtain ys where ys: "fin = finished st @ ys" by blast
    have "R i b" using new r rr ob by simp
    have "k' < length fin \<and> R j (fin ! k')"
      if "map_of (AList.update i k (palette_mappings st)) j = Some k'" for j k'
    proof (cases "j = i")
      case True
      then have "k' = k" using that by (simp add: update_conv')
      then show ?thesis using facts(1,2) \<open>R i b\<close> True by simp
    next
      case False
      then have "map_of (palette_mappings st) j = Some k'" using that by (simp add: update_conv')
      then have "k' < length (finished st) \<and> R j (finished st ! k')" using inv(3) by blast
      then show ?thesis by (simp add: ys nth_append)
    qed
    then show ?thesis
      using facts(4)[OF inv(1)] inv(2) by (simp add: f pm distinct_update)
  qed
qed

lemma phase1_invariant:
  assumes "phase1 chunk palette gcc tb es = Inr st"
  shows "distinct (finished st) \<and> distinct (map fst (palette_mappings st)) \<and>
    (\<forall>j k. map_of (palette_mappings st) j = Some k \<longrightarrow>
         k < length (finished st) \<and>
         (\<exists>obe oe extra. tb (palette ! j) None = Inr (Some (finished st ! k), obe, oe, extra)))"
proof -
  let ?R = "\<lambda>j b. \<exists>obe oe extra. tb (palette ! j) None = Inr (Some b, obe, oe, extra)"
  let ?P = "\<lambda>st. distinct (finished st) \<and> distinct (map fst (palette_mappings st)) \<and>
    (\<forall>j k. map_of (palette_mappings st) j = Some k \<longrightarrow>
         k < length (finished st) \<and> ?R j (finished st ! k))"
  show ?thesis
    using assms[unfolded phase1_def]
  proof (rule efold_invariant[where P = ?P])
    show "?P init_acc" by (simp add: init_acc_def)
  next
    fix x t t'
    assume x: "x \<in> set (enumerate 0 palette)" and p: "?P t"
      and s: "phase1_step chunk gcc tb es x t = Inr t'"
    obtain i q where xq: "x = (i, q)" by (cases x)
    from x have q: "q = palette ! i" by (auto simp: xq in_set_enumerate_eq)
    show "?P t'"
      using phase1_step_invariant[where R = ?R, OF s[unfolded xq]] p by (auto simp: q)
  qed
qed

lemma phase2_step_finished:
  assumes "phase2_step chunk palette gcc tb es job st = Inr st'"
  shows "(\<exists>ys. finished st' = finished st @ ys) \<and> (distinct (finished st) \<longrightarrow> distinct (finished st'))"
proof -
  from assms obtain index xyz r where st': "st' = phase2_body chunk es index xyz r st"
    by (elim phase2_step_parts) blast
  obtain ob obe oe extra where rr: "r = (ob, obe, oe, extra)" by (cases r)
  show ?thesis
  proof (cases ob)
    case None
    then show ?thesis by (simp add: st' rr phase2_body_fields)
  next
    case (Some b)
    obtain k fin where ga: "get_add_block b (finished st) = (k, fin)"
      by (cases "get_add_block b (finished st)")
    show ?thesis
      using get_add_block_facts(3,4)[OF ga] by (simp add: st' rr Some ga phase2_body_fields)
  qed
qed

lemma phase2_finished:
  assumes "phase2 chunk palette gcc tb es st = Inr st'"
  shows "(\<exists>ys. finished st' = finished st @ ys) \<and> (distinct (finished st) \<longrightarrow> distinct (finished st'))"
  using assms[unfolded phase2_def]
proof (rule efold_invariant[where P = "\<lambda>t. (\<exists>ys. finished t = finished st @ ys) \<and>
      (distinct (finished st) \<longrightarrow> distinct (finished t))"])
  show "(\<exists>ys. finished st = finished st @ ys) \<and> (distinct (finished st) \<longrightarrow> distinct (finished st))"
    by simp
next
  fix x t t'
  assume "(\<exists>ys. finished t = finished st @ ys) \<and> (distinct (finished st) \<longrightarrow> distinct (finished t))"
    and "phase2_step chunk palette gcc tb es x t = Inr t'"
  then show "(\<exists>ys. finished t' = finished st @ ys) \<and>
      (distinct (finished st) \<longrightarrow> distinct (finished t'))"
    using phase2_step_finished[of chunk palette gcc tb es x t t'] by auto
qed

lemma phase2_block_mapping_keys:
  assumes "phase2 chunk palette gcc tb es st = Inr st'" and "block_mappings st = []"
    and "(key, v) \<in> set (block_mappings st')"
  shows "\<exists>i cy x y z. i \<in> set (todo st) \<and> (cy, x, y, z) \<in> set (occurrences (blocks chunk) i) \<and>
           key = (x, y + cy * 16, z)"
proof -
  let ?jobs = "concat (map (\<lambda>index. map (Pair index) (occurrences (blocks chunk) index)) (todo st))"
  define K where "K = {key. \<exists>i cy x y z. i \<in> set (todo st) \<and>
      (cy, x, y, z) \<in> set (occurrences (blocks chunk) i) \<and> key = (x, y + cy * 16, z)}"
  have "fst ` set (block_mappings st') \<subseteq> K"
    using assms(1)[unfolded phase2_def]
  proof (rule efold_invariant[where P = "\<lambda>t. fst ` set (block_mappings t) \<subseteq> K"])
    show "fst ` set (block_mappings st) \<subseteq> K" by (simp add: assms(2))
  next
    fix job t t'
    assume mem: "job \<in> set ?jobs" and p: "fst ` set (block_mappings t) \<subseteq> K"
      and s: "phase2_step chunk palette gcc tb es job t = Inr t'"
    from s obtain index cy x y0 z ob obe oe extra where
      job: "job = (index, cy, (x, y0, z))"
      and t': "t' = phase2_body chunk es index (x, y0 + cy * 16, z) (ob, obe, oe, extra) t"
      by (rule phase2_step_parts)
    from mem have "index \<in> set (todo st)" "(cy, x, y0, z) \<in> set (occurrences (blocks chunk) index)"
      unfolding job by auto
    then have inK: "(x, y0 + cy * 16, z) \<in> K" unfolding K_def by blast
    show "fst ` set (block_mappings t') \<subseteq> K"
    proof (cases ob)
      case None
      then show ?thesis using p by (simp add: t' phase2_body_fields)
    next
      case (Some b)
      then show ?thesis using p inK by (simp add: t' phase2_body_fields dom_update)
    qed
  qed
  moreover have "key \<in> fst ` set (block_mappings st')"
    using assms(3) by (rule rev_image_eqI) simp
  ultimately have "key \<in> K" by (rule subsetD)
  then show ?thesis unfolding K_def by simp
qed

lemma entity_step_fields:
  assumes "entity_step te ent st = Inr st'"
  shows "todo st' = todo st \<and> palette_mappings st' = palette_mappings st \<and>
     finished st' = finished st \<and>
     (\<forall>key k. (key, Idx k) \<in> set (block_mappings st') \<longrightarrow> (key, Idx k) \<in> set (block_mappings st))"
proof -
  from assms obtain r where st': "st' = entity_body ent r st" by (rule entity_stepE)
  obtain ob obe oe where rr: "r = (ob, obe, oe)" by (cases r)
  have "(key, Idx k) \<in> set (block_mappings st)"
    if "(key, Idx k) \<in> set (block_mappings st')" for key k
  proof (cases ob)
    case None
    then show ?thesis using that by (simp add: st' rr entity_body_fields)
  next
    case (Some b)
    then obtain loc where "block_mappings st' = AList.update loc (Raw b) (block_mappings st)"
      by (simp add: st' rr entity_body_fields)
    then have "(key, Idx k) \<in> insert (loc, Raw b) (set (block_mappings st))"
      using that set_update_subset[of loc "Raw b" "block_mappings st"] by auto
    then show ?thesis by simp
  qed
  then show ?thesis by (simp add: st' rr entity_body_fields)
qed

lemma entity_pass_fields:
  assumes "entity_pass chunk te es st = Inr st'"
  shows "todo st' = todo st \<and> palette_mappings st' = palette_mappings st \<and>
     finished st' = finished st \<and>
     (\<forall>key k. (key, Idx k) \<in> set (block_mappings st') \<longrightarrow> (key, Idx k) \<in> set (block_mappings st))"
proof (cases es)
  case False
  then show ?thesis using assms by (simp add: entity_pass_def)
next
  case True
  then have run: "efold (entity_step te) (entities chunk) st = Inr st'"
    using assms by (simp add: entity_pass_def)
  show ?thesis
    using run
  proof (rule efold_invariant[where P = "\<lambda>t. todo t = todo st \<and>
      palette_mappings t = palette_mappings st \<and> finished t = finished st \<and>
     (\<forall>key k. (key, Idx k) \<in> set (block_mappings t) \<longrightarrow> (key, Idx k) \<in> set (block_mappings st))"])
    show "todo st = todo st \<and> palette_mappings st = palette_mappings st \<and>
      finished st = finished st \<and>
      (\<forall>key k. (key, Idx k) \<in> set (block_mappings st) \<longrightarrow> (key, Idx k) \<in> set (block_mappings st))"
      by simp
  next
    fix x t t'
    assume "todo t = todo st \<and> palette_mappings t = palette_mappings st \<and>
      finished t = finished st \<and>
      (\<forall>key k. (key, Idx k) \<in> set (block_mappings t) \<longrightarrow> (key, Idx k) \<in> set (block_mappings st))"
      and "entity_step te x t = Inr t'"
    then show "todo t' = todo st \<and> palette_mappings t' = palette_mappings st \<and>
      finished t' = finished st \<and>
      (\<forall>key k. (key, Idx k) \<in> set (block_mappings t') \<longrightarrow> (key, Idx k) \<in> set (block_mappings st))"
      using entity_step_fields[of te x t t'] by auto
  qed
qed

lemma translate_phases_facts:
  assumes "translate_phases chunk palette gcc tb te es = Inr st"
  shows "\<exists>st1. phase1 chunk palette gcc tb es = Inr st1 \<and>
     palette_mappings st = palette_mappings st1 \<and> todo st = todo st1 \<and>
     (\<exists>ys. finished st = finished st1 @ ys) \<and> distinct (finished st) \<and>
     (\<forall>key k. (key, Idx k) \<in> set (block_mappings st) \<longrightarrow>
           (\<exists>i cy x y z. i \<in> set (todo st1) \<and>
              (cy, x, y, z) \<in> set (occurrences (blocks chunk) i) \<and> key = (x, y + cy * 16, z)))"
proof -
  from assms obtain st1 st2 where p1: "phase1 chunk palette gcc tb es = Inr st1"
    and p2: "phase2 chunk palette gcc tb es st1 = Inr st2"
    and pe: "entity_pass chunk te es st2 = Inr st"
    by (auto simp: translate_phases_def ebind_eq_Inr)
  note e = entity_pass_fields[OF pe]
  note f2 = phase2_finished[OF p2]
  note i1 = phase1_invariant[OF p1]
  have a: "palette_mappings st = palette_mappings st1"
    using e phase2_palette_mappings[OF p2] by simp
  have b: "todo st = todo st1" using e phase2_todo[OF p2] by simp
  have c: "\<exists>ys. finished st = finished st1 @ ys" using e f2 by simp
  have d: "distinct (finished st)" using e f2 i1 by simp
  have k: "\<exists>i cy x y z. i \<in> set (todo st1) \<and>
      (cy, x, y, z) \<in> set (occurrences (blocks chunk) i) \<and> key = (x, y + cy * 16, z)"
    if "(key, Idx k) \<in> set (block_mappings st)" for key k
  proof -
    from that e have "(key, Idx k) \<in> set (block_mappings st2)" by blast
    then show ?thesis
      by (rule phase2_block_mapping_keys[OF p2 phase1_block_mappings[OF p1]])
  qed
  have k': "\<forall>key k. (key, Idx k) \<in> set (block_mappings st) \<longrightarrow>
           (\<exists>i cy x y z. i \<in> set (todo st1) \<and>
              (cy, x, y, z) \<in> set (occurrences (blocks chunk) i) \<and> key = (x, y + cy * 16, z))"
    using k by blast
  show ?thesis
    using p1 a b c d k' by (intro exI[of _ st1] conjI) assumption+
qed

lemma no_override_outside_todo:
  assumes wf: "wf_blocks bs"
    and cell: "map_of bs cy = Some a" "map_of a (x, y, z) = Some v"
    and occ: "(cy', x', y', z') \<in> set (occurrences bs i)"
    and key: "(x', y' + cy' * 16, z') = (x, y + cy * 16, z)"
  shows "v = i"
proof -
  from occ obtain a' where a': "(cy', a') \<in> set bs" and c': "((x', y', z'), i) \<in> set a'"
    by (auto simp: occurrences_set)
  have m: "(cy, a) \<in> set bs" "((x, y, z), v) \<in> set a"
    using cell by (auto dest: map_of_SomeD)
  have r: "0 \<le> y \<and> y < 16" "0 \<le> y' \<and> y' < 16"
    using wf m a' c' by (auto simp: wf_blocks_def list_all_iff)
  have "y' + cy' * 16 = y + cy * 16" "x' = x" "z' = z" using key by auto
  then have "cy' = cy \<and> y' = y" using r by presburger
  then have "cy' = cy" "y' = y" by simp_all
  then have "map_of bs cy = Some a'" "map_of a' (x, y, z) = Some i"
    using wf_blocks_cell[OF wf, of cy' a' "(x', y', z')" i] a' c' \<open>x' = x\<close> \<open>z' = z\<close> by auto
  then show ?thesis using cell by simp
qed

lemma wf_blocks_y:
  assumes "wf_blocks bs" and "map_of bs cy = Some a" and "map_of a (x, y, z) = Some v"
  shows "0 \<le> y \<and> y < 16"
  using assms by (auto simp: wf_blocks_def list_all_iff dest!: map_of_SomeD)

lemma translate_cell:
  assumes tr: "translate chunk palette gcc tb te es True = Inr (chunk', palette')"
    and wf: "wf_blocks (blocks chunk)"
  shows "\<exists>st1 ys. phase1 chunk palette gcc tb es = Inr st1 \<and>
     palette' = map Blk (finished st1 @ ys) \<and> distinct (finished st1 @ ys) \<and>
     (\<forall>cy a x y z v. map_of (blocks chunk) cy = Some a \<longrightarrow> map_of a (x, y, z) = Some v \<longrightarrow>
        v \<notin> set (todo st1) \<longrightarrow>
          (\<exists>a'. map_of (blocks chunk') cy = Some a' \<and>
            map_of a' (x, y, z) =
              Some (case map_of (palette_mappings st1) v of Some n \<Rightarrow> n | None \<Rightarrow> 0)))"
proof -
  from tr obtain st where ph: "translate_phases chunk palette gcc tb te es = Inr st"
    and c: "commit chunk st = Inr chunk'" and pal: "palette' = map Blk (finished st)"
    by (auto simp: translate_def ebind_eq_Inr)
  from translate_phases_facts[OF ph] obtain st1 ys where p1: "phase1 chunk palette gcc tb es = Inr st1"
    and pm: "palette_mappings st = palette_mappings st1"
    and ys: "finished st = finished st1 @ ys" and d: "distinct (finished st)"
    and keys: "\<forall>key k. (key, Idx k) \<in> set (block_mappings st) \<longrightarrow>
           (\<exists>i cy x y z. i \<in> set (todo st1) \<and>
              (cy, x, y, z) \<in> set (occurrences (blocks chunk) i) \<and> key = (x, y + cy * 16, z))"
    by (elim exE conjE) (rule that, assumption+)
  have cellv: "\<exists>a'. map_of (blocks chunk') cy = Some a' \<and>
            map_of a' (x, y, z) =
              Some (case map_of (palette_mappings st1) v of Some n \<Rightarrow> n | None \<Rightarrow> 0)"
    if cell: "map_of (blocks chunk) cy = Some a" "map_of a (x, y, z) = Some v"
      and nt: "v \<notin> set (todo st1)" for cy a x y z v
  proof -
    have no: "map_of (rev (block_mappings st)) (x, y + cy * 16, z) \<noteq> Some (Idx k)" for k
    proof
      assume "map_of (rev (block_mappings st)) (x, y + cy * 16, z) = Some (Idx k)"
      then have "((x, y + cy * 16, z), Idx k) \<in> set (rev (block_mappings st))"
        by (rule map_of_SomeD)
      then have "((x, y + cy * 16, z), Idx k) \<in> set (block_mappings st)" by simp
      with keys obtain i cy' x' y' z' where i: "i \<in> set (todo st1)"
        and o: "(cy', x', y', z') \<in> set (occurrences (blocks chunk) i)"
        and k: "(x, y + cy * 16, z) = (x', y' + cy' * 16, z')" by blast
      from no_override_outside_todo[OF wf cell o k[symmetric]] i nt show False by simp
    qed
    have dk: "distinct (map fst (palette_mappings st1))"
      using phase1_invariant[OF p1] by simp
    have "(case map_of (rev (block_mappings st)) (x, y + cy * 16, z) of
                     Some (Idx k) \<Rightarrow> k
                   | _ \<Rightarrow> (case map_of (rev (palette_mappings st)) v of
                              Some n \<Rightarrow> n | None \<Rightarrow> 0)) =
          (case map_of (palette_mappings st1) v of Some n \<Rightarrow> n | None \<Rightarrow> 0)"
      using no by (simp add: pm map_of_rev_distinct[OF dk] split: option.splits new_cell.splits)
    moreover have "0 \<le> y" "y < 16" using wf_blocks_y[OF wf cell] by simp_all
    ultimately show ?thesis
      using commit_cell[OF c cell] by simp
  qed
  have all: "\<forall>cy a x y z v. map_of (blocks chunk) cy = Some a \<longrightarrow> map_of a (x, y, z) = Some v \<longrightarrow>
        v \<notin> set (todo st1) \<longrightarrow>
          (\<exists>a'. map_of (blocks chunk') cy = Some a' \<and>
            map_of a' (x, y, z) =
              Some (case map_of (palette_mappings st1) v of Some n \<Rightarrow> n | None \<Rightarrow> 0))"
    using cellv by blast
  have pal': "palette' = map Blk (finished st1 @ ys)" using pal ys by simp
  have d': "distinct (finished st1 @ ys)" using d ys by simp
  show ?thesis
    using p1 pal' d' all by (intro exI[of _ st1] exI[of _ ys] conjI) assumption+
qed

lemma phase1_todo_deferred:
  assumes "phase1 chunk palette gcc tb es = Inr st" and "i \<in> set (todo st)"
  shows "i < length palette \<and> \<not> Option.is_none gcc \<and>
      (\<exists>ob obe oe. tb (palette ! i) None = Inr (ob, obe, oe, True))"
proof -
  from assms(2) obtain ib where ib: "ib \<in> set (enumerate 0 palette)" "fst ib = i"
    and d: "\<not> Option.is_none gcc"
      "(case tb (snd ib) None of Inr (ob, obe, oe, extra) \<Rightarrow> extra | Inl e \<Rightarrow> False)"
    unfolding phase1_todo[OF assms(1)] by auto
  obtain p where "ib = (i, p)" using ib(2) by (cases ib) auto
  then have "i < length palette" "snd ib = palette ! i"
    using ib(1) by (auto simp: in_set_enumerate_eq)
  then show ?thesis using d by (auto split: sum.splits)
qed

lemma phase1_mapping:
  assumes p1: "phase1 chunk palette gcc tb es = Inr st"
    and i: "i < length palette" "tb (palette ! i) None = Inr (Some b, obe, oe, extra)"
      "\<not> (extra \<and> \<not> Option.is_none gcc)"
  shows "\<exists>k. map_of (palette_mappings st) i = Some k \<and> k < length (finished st) \<and>
           finished st ! k = b"
    and "i \<notin> set (todo st)"
proof -
  have "i \<in> fst ` set (palette_mappings st)"
    unfolding phase1_keys[OF p1] using i by blast
  then obtain k where k: "map_of (palette_mappings st) i = Some k"
    by (cases "map_of (palette_mappings st) i") (auto simp: map_of_eq_None_iff)
  from phase1_invariant[OF p1] k have "k < length (finished st)"
    "\<exists>obe oe extra. tb (palette ! i) None = Inr (Some (finished st ! k), obe, oe, extra)"
    by blast+
  then show "\<exists>k. map_of (palette_mappings st) i = Some k \<and> k < length (finished st) \<and>
           finished st ! k = b"
    using k i(2) by auto
  show "i \<notin> set (todo st)"
    using phase1_todo_deferred[OF p1, of i] i(2,3) by auto
qed

lemma efold_total:
  assumes "\<And>x s. x \<in> set xs \<Longrightarrow> \<exists>s'. f x s = Inr s'"
  shows "\<exists>s'. efold f xs s = Inr s'"
  using assms
proof (induction xs arbitrary: s)
  case Nil
  then show ?case by simp
next
  case (Cons x xs)
  from Cons.prems[of x s] obtain t where t: "f x s = Inr t" by auto
  from Cons.IH[of t] Cons.prems obtain s' where "efold f xs t = Inr s'" by auto
  then show ?case using t by simp
qed

lemma entity_steps_stub: "efold (entity_step translate_entity_stub) ents st = Inr st"
  by (induction ents)
    (simp_all add: entity_step_def translate_entity_stub_def entity_body_def)

lemma entity_pass_stub: "entity_pass chunk translate_entity_stub es st = Inr st"
  by (simp add: entity_pass_def entity_steps_stub)

lemma phase1_finished_set:
  assumes "phase1 chunk palette gcc tb es = Inr st" and "b \<in> set (finished st)"
  shows "\<exists>j obe oe extra. j < length palette \<and> tb (palette ! j) None = Inr (Some b, obe, oe, extra)"
proof -
  define S where "S = {b. \<exists>j obe oe extra. j < length palette \<and>
      tb (palette ! j) None = Inr (Some b, obe, oe, extra)}"
  have "set (finished st) \<subseteq> S"
    using assms(1)[unfolded phase1_def]
  proof (rule efold_invariant[where P = "\<lambda>t. set (finished t) \<subseteq> S"])
    show "set (finished init_acc) \<subseteq> S" by (simp add: init_acc_def)
  next
    fix x t t'
    assume x: "x \<in> set (enumerate 0 palette)" and p: "set (finished t) \<subseteq> S"
      and s: "phase1_step chunk gcc tb es x t = Inr t'"
    obtain i q where xq: "x = (i, q)" by (cases x)
    from x have q: "i < length palette" "q = palette ! i" by (auto simp: xq in_set_enumerate_eq)
    from s obtain r where r: "tb q None = Inr r" and t': "t' = phase1_body chunk gcc es i r t"
      unfolding xq by (rule phase1_stepE)
    obtain ob obe oe extra where rr: "r = (ob, obe, oe, extra)" by (cases r)
    show "set (finished t') \<subseteq> S"
    proof (cases "(extra \<and> \<not> Option.is_none gcc) \<or> ob = None")
      case True
      then have "finished t' = finished t" by (auto simp: t' rr phase1_body_fields)
      then show ?thesis using p by simp
    next
      case False
      then obtain b' where ob: "ob = Some b'" and nd: "\<not> (extra \<and> \<not> Option.is_none gcc)" by auto
      obtain k fin where ga: "get_add_block b' (finished t) = (k, fin)"
        by (cases "get_add_block b' (finished t)")
      have f: "finished t' = fin" using nd by (auto simp: t' rr ob ga phase1_body_fields)
      have "b' \<in> S" unfolding S_def using q r rr ob by blast
      then show ?thesis using p get_add_block_facts(5)[OF ga] by (simp add: f)
    qed
  qed
  then have "b \<in> S" using assms(2) by (rule subsetD)
  then show ?thesis unfolding S_def by simp
qed

lemma context_free_pass:
  assumes cf: "\<forall>e \<in> set palette. \<exists>b obe oe. tb e None = Inr (Some b, obe, oe, False)"
  shows "\<exists>chunk' palette' r.
     translate chunk palette gcc tb translate_entity_stub es True = Inr (chunk', palette') \<and>
     blocks chunk' = map (\<lambda>(cy, a). (cy, map (\<lambda>(p, v). (p, r v)) a)) (blocks chunk) \<and>
     (\<forall>v < length palette. r v < length palette' \<and>
        (\<exists>b obe oe. tb (palette ! v) None = Inr (Some b, obe, oe, False) \<and>
           palette' ! r v = Blk b)) \<and>
     (\<forall>e' \<in> set palette'. \<exists>j b obe oe. j < length palette \<and>
        tb (palette ! j) None = Inr (Some b, obe, oe, False) \<and> e' = Blk b)"
proof -
  have tot: "\<exists>s'. phase1_step chunk gcc tb es x s = Inr s'"
    if "x \<in> set (enumerate 0 palette)" for x s
  proof -
    obtain i q where xq: "x = (i, q)" by (cases x)
    from that have "q \<in> set palette" by (auto simp: xq in_set_enumerate_eq)
    with cf obtain b obe oe where "tb q None = Inr (Some b, obe, oe, False)" by blast
    then show ?thesis by (simp add: xq phase1_step_def)
  qed
  have "\<exists>st. efold (phase1_step chunk gcc tb es) (enumerate 0 palette) init_acc = Inr st"
    by (rule efold_total[where f = "phase1_step chunk gcc tb es"]) (rule tot)
  then obtain st where p1: "phase1 chunk palette gcc tb es = Inr st"
    unfolding phase1_def by (elim exE)
  have nodefer: "\<not> (\<not> Option.is_none gcc \<and>
            (case tb (snd ib) None of Inr (ob, obe, oe, extra) \<Rightarrow> extra | Inl e \<Rightarrow> False))"
    if "ib \<in> set (enumerate 0 palette)" for ib
  proof -
    obtain i q where xq: "ib = (i, q)" by (cases ib)
    from that have "q \<in> set palette" by (auto simp: xq in_set_enumerate_eq)
    with cf obtain b obe oe where "tb q None = Inr (Some b, obe, oe, False)" by blast
    then show ?thesis by (simp add: xq)
  qed
  have todo: "todo st = []"
    unfolding phase1_todo[OF p1] using nodefer by (simp add: filter_empty_conv)
  have p2: "phase2 chunk palette gcc tb es st = Inr st"
    by (simp add: phase2_def todo)
  have ph: "translate_phases chunk palette gcc tb translate_entity_stub es = Inr st"
    by (simp add: translate_phases_def p1 p2 entity_pass_stub)
  define r where "r = (\<lambda>v. case map_of (rev (palette_mappings st)) v of Some n \<Rightarrow> n | None \<Rightarrow> 0)"
  define chunk' where "chunk' = chunk\<lparr>blocks :=
      map (\<lambda>(cy, a). (cy, map (\<lambda>(p, v). (p, r v)) a)) (blocks chunk),
      block_entities := output_block_entities st, entities := output_entities st\<rparr>"
  have rw: "(\<lambda>(cy, old_blocks). (cy, rewrite_sub_chunk (palette_mappings st) old_blocks)) =
      (\<lambda>(cy, a). (cy, map (\<lambda>(p, v). (p, r v)) a))"
    by (simp add: rewrite_sub_chunk_map r_def)
  have c: "commit chunk st = Inr chunk'"
    by (simp add: commit_def phase1_block_mappings[OF p1] rw chunk'_def)
  have tr: "translate chunk palette gcc tb translate_entity_stub es True =
      Inr (chunk', map Blk (finished st))"
    by (simp add: translate_def ph c)
  have dk: "distinct (map fst (palette_mappings st))"
    using phase1_invariant[OF p1] by simp
  have idx: "r v < length (map Blk (finished st)) \<and>
        (\<exists>b obe oe. tb (palette ! v) None = Inr (Some b, obe, oe, False) \<and>
           map Blk (finished st) ! r v = Blk b)" if v: "v < length palette" for v
  proof -
    from v have "palette ! v \<in> set palette" by (rule nth_mem)
    with cf obtain b obe oe where t: "tb (palette ! v) None = Inr (Some b, obe, oe, False)"
      by blast
    from phase1_mapping(1)[OF p1 v t] obtain k where
      k: "map_of (palette_mappings st) v = Some k" "k < length (finished st)"
        "finished st ! k = b" by auto
    have "r v = k" by (simp add: r_def map_of_rev_distinct[OF dk] k(1))
    then show ?thesis using k t by auto
  qed
  have ents: "\<exists>j b obe oe. j < length palette \<and>
        tb (palette ! j) None = Inr (Some b, obe, oe, False) \<and> e' = Blk b"
    if "e' \<in> set (map Blk (finished st))" for e'
  proof -
    from that obtain b where b: "b \<in> set (finished st)" "e' = Blk b" by auto
    from phase1_finished_set[OF p1 b(1)] obtain j obe oe extra where
      j: "j < length palette" "tb (palette ! j) None = Inr (Some b, obe, oe, extra)" by blast
    from j(1) have "palette ! j \<in> set palette" by (rule nth_mem)
    with cf obtain b' obe' oe' where "tb (palette ! j) None = Inr (Some b', obe', oe', False)"
      by blast
    with j(2) have "tb (palette ! j) None = Inr (Some b, obe, oe, False)" by simp
    then show ?thesis using j(1) b(2) by blast
  qed
  have bl: "blocks chunk' = map (\<lambda>(cy, a). (cy, map (\<lambda>(p, v). (p, r v)) a)) (blocks chunk)"
    by (simp add: chunk'_def)
  have idx': "\<forall>v < length palette. r v < length (map Blk (finished st)) \<and>
        (\<exists>b obe oe. tb (palette ! v) None = Inr (Some b, obe, oe, False) \<and>
           map Blk (finished st) ! r v = Blk b)"
    using idx by blast
  have ents': "\<forall>e' \<in> set (map Blk (finished st)). \<exists>j b obe oe. j < length palette \<and>
        tb (palette ! j) None = Inr (Some b, obe, oe, False) \<and> e' = Blk b"
    using ents by blast
  show ?thesis
    using tr bl idx' ents'
    by (intro exI[of _ chunk'] exI[of _ "map Blk (finished st)"] exI[of _ r] conjI) assumption+
qed

lemma layer_step_block:
  assumes "rule blk gb = Inr (BlockObject ob, be, False)"
  shows "layer_step rule gb (depth, blk) (fb, fbe, fes, fx) =
     Inr ((case fb of None \<Rightarrow> Some ob | Some x \<Rightarrow> Some (block_add x ob)),
          (if depth = 0 then be else fbe), fes, fx)"
  using assms by (simp add: layer_step_def)

lemma extra_layers_fold:
  assumes "list_all2 (\<lambda>l l'. \<exists>be. rule (Block l []) gb = Inr (BlockObject (Block l' []), be, False))
             ls ls'"
    and "0 < n"
  shows "efold (layer_step rule gb) (enumerate n (map (\<lambda>l. Block l []) ls))
           (Some (Block x acc), fbe, [], False) =
         Inr (Some (Block x (acc @ ls')), fbe, [], False)"
  using assms
proof (induction ls ls' arbitrary: n acc rule: list_all2_induct)
  case Nil
  then show ?case by simp
next
  case (Cons l ls l' ls')
  from Cons.hyps(1) obtain be where
    r: "rule (Block l []) gb = Inr (BlockObject (Block l' []), be, False)" by blast
  have "layer_step rule gb (n, Block l []) (Some (Block x acc), fbe, [], False) =
      Inr (Some (Block x (acc @ [l'])), fbe, [], False)"
    using layer_step_block[where rule = rule and blk = "Block l []" and gb = gb
        and depth = n and fb = "Some (Block x acc)" and fbe = fbe and fes = "[]" and fx = False,
        OF r] Cons.prems
    by (simp add: block_add_def)
  then show ?case
    using Cons.IH[of "Suc n" "acc @ [l']"] by simp
qed

lemma translate_block_with_layers:
  assumes "list_all2 (\<lambda>l l'. \<exists>be. rule (Block l []) gb = Inr (BlockObject (Block l' []), be, False))
             (base_layer b # extra_layers b) (l0' # ls')"
  shows "\<exists>be. translate_block_with rule (Blk b) gb = Inr (Some (Block l0' ls'), be, [], False)"
proof -
  from assms obtain be where
    r0: "rule (Block (base_layer b) []) gb = Inr (BlockObject (Block l0' []), be, False)"
    and rest: "list_all2 (\<lambda>l l'. \<exists>be. rule (Block l []) gb =
        Inr (BlockObject (Block l' []), be, False)) (extra_layers b) ls'"
    by auto
  have first: "layer_step rule gb (0, Block (base_layer b) []) (None, None, [], False) =
      Inr (Some (Block l0' []), be, [], False)"
    using layer_step_block[where rule = rule and blk = "Block (base_layer b) []" and gb = gb
        and depth = 0 and fb = None and fbe = None and fes = "[]" and fx = False, OF r0]
    by simp
  have "translate_block_with rule (Blk b) gb = Inr (Some (Block l0' ([] @ ls')), be, [], False)"
    using extra_layers_fold[where rule = rule and gb = gb and ls = "extra_layers b"
        and ls' = ls' and n = "Suc 0" and x = l0' and acc = "[]" and fbe = be, OF rest] first
    by (simp add: translate_block_with_def base_block_def extra_blocks_def)
  then show ?thesis by simp
qed

lemma to_universal_translate:
  "\<exists>chunkA. blocks chunkA = blocks chunk \<and>
     to_universal ver chunk palette gcc es ft =
       translate chunkA palette gcc (translate_block_with (block_to_universal ver))
         translate_entity_stub es ft"
  apply (cases "block_entity_map ver")
   apply (simp_all add: to_universal_def Let_def)
   apply (rule exI, rule conjI[rotated], rule refl, simp)+
  done

lemma from_universal_translate:
  assumes "translate chunk palette gcc (translate_block_with (block_from_universal ver))
             translate_entity_stub es ft = Inr (c1, p1)"
  shows "\<exists>c3. from_universal ver chunk palette gcc es ft = Inr (c3, p1) \<and> blocks c3 = blocks c1"
  using assms
  by (cases "block_entity_map ver") (simp_all add: from_universal_def Let_def pack_palette_def)

lemma rewrite_twice:
  "map (\<lambda>(cy, a). (cy, map (\<lambda>(p, v). (p, r2 v)) a))
     (map (\<lambda>(cy, a). (cy, map (\<lambda>(p, v). (p, r1 v)) a)) bs) =
   map (\<lambda>(cy, a). (cy, map (\<lambda>(p, v). (p, r2 (r1 v))) a)) bs"
  by (simp add: split_def comp_def)

section \<open>The example inputs evaluated\<close>

lemmas engine_defs =
  translate_def translate_phases_def phase1_def phase2_def phase1_step_def phase2_step_def
  phase1_body_def phase2_body_def entity_body_def entity_pass_def entity_step_def commit_def commit_step_def init_acc_def ebind_def
  occurrences_def where_eq_def get_add_block_def offset_entities_def blocks_getitem_def
  blocks_setitem_def getitem_def rewrite_sub_chunk_def assign_where_def zeros_like_def
  new_at_location_def translate_entity_stub_def Let_def

lemmas ex_defs =
  ex_chunk_def ex_palette_def ex_block_entity_def ex_entity_def ex_translate_block_def
  ex_get_chunk_def ex_acc_def ex_acc_phase1_def ex_blocks_out_def ex_translate_entity_def ex_chunk_with_entity_def

lemma ex_phases:
  "translate_phases ex_chunk ex_palette (Some ex_get_chunk) ex_translate_block
     translate_entity_stub True = Inr ex_acc"
  by (simp add: engine_defs ex_defs)

lemma ex_translate:
  "translate ex_chunk ex_palette (Some ex_get_chunk) ex_translate_block
     translate_entity_stub True True =
   Inr (ex_chunk\<lparr>blocks := ex_blocks_out, block_entities := output_block_entities ex_acc,
          entities := output_entities ex_acc\<rparr>, map Blk (finished ex_acc))"
  by (simp add: engine_defs ex_defs)

lemma ex_phase1:
  "phase1 ex_chunk ex_palette (Some ex_get_chunk) ex_translate_block True = Inr ex_acc_phase1"
  by (simp add: engine_defs ex_defs ex_acc_phase1_def)

lemma ex_phase2:
  "phase2 ex_chunk ex_palette (Some ex_get_chunk) ex_translate_block True ex_acc_phase1 = Inr ex_acc"
  by (simp add: engine_defs ex_defs ex_acc_phase1_def)

lemma ex_wf: "wf_blocks (blocks ex_chunk)"
  by (simp add: wf_blocks_def ex_chunk_def)

lemma ex_phase1_no_loader:
  "phase1 ex_chunk ex_palette None ex_translate_block True = Inr ex_acc_no_loader"
  by (simp add: engine_defs ex_defs ex_acc_no_loader_def)

lemma ex_phase2_no_loader:
  "phase2 ex_chunk ex_palette None ex_translate_block True ex_acc_no_loader =
   Inr ex_acc_no_loader"
  by (simp add: engine_defs ex_defs ex_acc_no_loader_def)

section \<open>The commit\<close>

text \<open>
  Claim C10. At the commit every section's new array starts from zeros and only the old
  indices that have an entry in \<open>palette_mappings\<close> are substituted, before the entries
  of \<open>block_mappings\<close> overwrite single cells. Hence a cell whose old index has no entry
  in \<open>palette_mappings\<close> and whose position has no entry in \<open>block_mappings\<close> holds index
  \<open>0\<close> in the chunk that \<open>_translate\<close> returns.
\<close>

theorem unmapped_cells_hold_zero:
  assumes "translate_phases chunk palette get_chunk_callback translate_block translate_entity
             entity_support = Inr st"
    and "translate chunk palette get_chunk_callback translate_block translate_entity
           entity_support True = Inr (chunk', palette')"
    and "map_of (blocks chunk) cy = Some a" and "map_of a (x, y, z) = Some v"
    and "0 \<le> y" and "y < 16"
    and "v \<notin> fst ` set (palette_mappings st)"
    and "(x, y + cy * 16, z) \<notin> fst ` set (block_mappings st)"
  shows "\<exists>a'. map_of (blocks chunk') cy = Some a' \<and> map_of a' (x, y, z) = Some 0"
proof -
  from assms(1,2) have c: "commit chunk st = Inr chunk'"
    by (auto simp: translate_def ebind_eq_Inr)
  have "map_of (rev (palette_mappings st)) v = None"
    using assms(7) by (simp add: map_of_eq_None_iff)
  moreover have "map_of (rev (block_mappings st)) (x, y + cy * 16, z) = None"
    using assms(8) by (simp add: map_of_eq_None_iff)
  ultimately show ?thesis
    using commit_cell[OF c assms(3,4,5,6)] by simp
qed

text \<open>
  The example chunk: the cell \<open>(1, 0, 1)\<close> holds index 2 (\<open>junk\<close>), for which the callback
  yields no block; it holds 0 afterwards.
\<close>

theorem unmapped_cells_hold_zero_witness:
  "translate_phases ex_chunk ex_palette (Some ex_get_chunk) ex_translate_block
     translate_entity_stub True = Inr ex_acc
   \<and> map_of (blocks ex_chunk) 0 = Some (snd (hd (blocks ex_chunk)))
   \<and> map_of (snd (hd (blocks ex_chunk))) (1, 0, 1) = Some 2
   \<and> 2 \<notin> fst ` set (palette_mappings ex_acc)
   \<and> (1, 0 + 0 * 16, 1) \<notin> fst ` set (block_mappings ex_acc)
   \<and> (\<exists>a'. map_of ex_blocks_out 0 = Some a' \<and> map_of a' (1, 0, 1) = Some 0)"
proof -
  have h3: "map_of (blocks ex_chunk) 0 = Some (snd (hd (blocks ex_chunk)))"
    by (simp add: ex_chunk_def)
  have h4: "map_of (snd (hd (blocks ex_chunk))) (1, 0, 1) = Some 2"
    by (simp add: ex_chunk_def)
  have h7: "2 \<notin> fst ` set (palette_mappings ex_acc)"
    by (simp add: ex_acc_def)
  have h8: "(1, 0 + 0 * 16, 1) \<notin> fst ` set (block_mappings ex_acc)"
    by (simp add: ex_acc_def)
  from unmapped_cells_hold_zero[OF ex_phases ex_translate h3 h4 _ _ h7 h8]
  have "\<exists>a'. map_of ex_blocks_out 0 = Some a' \<and> map_of a' (1, 0, 1) = Some 0"
    by simp
  then show ?thesis using ex_phases h3 h4 h7 h8 by blast
qed

section \<open>Block entities placed by Phase 1\<close>

lemma phase1_step_block_entities:
  assumes "phase1_step chunk gcc tb es ib st = Inr st'"
  shows "output_block_entities st' = output_block_entities st @
     (case ib of (i, input_block) \<Rightarrow>
        (case tb input_block None of
           Inr (Some b, Some be, oe, extra) \<Rightarrow>
             if extra \<and> \<not> Option.is_none gcc then []
             else map (\<lambda>(cy, x, y, z).
                    new_at_location be (x + cx chunk * 16, y + cy * 16, z + cz chunk * 16))
                   (occurrences (blocks chunk) i)
         | _ \<Rightarrow> []))"
proof -
  obtain i input_block where ib: "ib = (i, input_block)" by (cases ib)
  from assms obtain r where r: "tb input_block None = Inr r"
    and st': "st' = phase1_body chunk gcc es i r st"
    unfolding ib by (rule phase1_stepE)
  obtain ob obe oe extra where rr: "r = (ob, obe, oe, extra)" by (cases r)
  show ?thesis
    by (cases ob; cases obe) (simp_all add: ib r st' rr phase1_body_fields)
qed

text \<open>
  Claim C7. In Phase 1 the block entities appended for a palette index that is not
  deferred and whose translation yields a block and a block entity are one copy of that
  block entity for every occurrence of the index, located at
  \<open>(x + 16 * cx, y + 16 * cy, z + 16 * cz)\<close> for the occurrence \<open>(x, y, z)\<close> in the section
  \<open>cy\<close>; no other index contributes block entities. The occurrences of an index are the
  cells of all sections that hold it, each listed once.
\<close>

theorem phase1_block_entity_per_occurrence:
  assumes "phase1 chunk palette gcc tb es = Inr st" and "wf_blocks (blocks chunk)"
  shows "output_block_entities st =
           concat (map (\<lambda>(i, input_block).
              (case tb input_block None of
                 Inr (Some b, Some be, oe, extra) \<Rightarrow>
                   if extra \<and> \<not> Option.is_none gcc then []
                   else map (\<lambda>(cy, x, y, z).
                          new_at_location be (x + cx chunk * 16, y + cy * 16, z + cz chunk * 16))
                         (occurrences (blocks chunk) i)
               | _ \<Rightarrow> [])) (enumerate 0 palette))
         \<and> distinct (occurrences (blocks chunk) j)
         \<and> set (occurrences (blocks chunk) j) =
             {(cy, p). \<exists>a. map_of (blocks chunk) cy = Some a \<and> map_of a p = Some j}"
proof -
  define c where "c = (\<lambda>ib. case ib of (i, input_block) \<Rightarrow>
              (case tb input_block None of
                 Inr (Some b, Some be, oe, extra) \<Rightarrow>
                   if extra \<and> \<not> Option.is_none gcc then []
                   else map (\<lambda>(cy, x, y, z).
                          new_at_location be (x + cx chunk * 16, y + cy * 16, z + cz chunk * 16))
                         (occurrences (blocks chunk) i)
               | _ \<Rightarrow> []))"
  have step: "\<And>x t t'. phase1_step chunk gcc tb es x t = Inr t' \<Longrightarrow>
      output_block_entities t' = output_block_entities t @ c x"
    unfolding c_def by (rule phase1_step_block_entities)
  have "output_block_entities st = concat (map c (enumerate 0 palette))"
    using efold_appends[where f = "phase1_step chunk gcc tb es" and g = output_block_entities
        and c = c, OF step assms(1)[unfolded phase1_def]]
    by (simp add: init_acc_def)
  moreover have "set (occurrences (blocks chunk) j) =
      {(cy, p). \<exists>a. map_of (blocks chunk) cy = Some a \<and> map_of a p = Some j}"
    using wf_blocks_cell[OF assms(2)] by (auto simp: occurrences_set)
  ultimately show ?thesis
    using occurrences_distinct[OF assms(2)] by (simp add: c_def)
qed

text \<open>
  The example chunk: index 3 (\<open>chest\<close>) occurs at \<open>(0, 0, 2)\<close> and \<open>(1, 0, 2)\<close> of section
  0, and Phase 1 places one block entity at each.
\<close>

theorem phase1_block_entity_per_occurrence_witness:
  "phase1 ex_chunk ex_palette (Some ex_get_chunk) ex_translate_block True = Inr ex_acc_phase1
   \<and> wf_blocks (blocks ex_chunk)
   \<and> output_block_entities ex_acc_phase1 =
       [new_at_location ex_block_entity (0 + 2 * 16, 0 + 0 * 16, 2 + (- 1) * 16),
        new_at_location ex_block_entity (1 + 2 * 16, 0 + 0 * 16, 2 + (- 1) * 16)]
   \<and> occurrences (blocks ex_chunk) 3 = [(0, (0, 0, 2)), (0, (1, 0, 2))]
   \<and> distinct (occurrences (blocks ex_chunk) 3)
   \<and> set (occurrences (blocks ex_chunk) 3) =
       {(cy, p). \<exists>a. map_of (blocks ex_chunk) cy = Some a \<and> map_of a p = Some 3}"
proof -
  have occ: "occurrences (blocks ex_chunk) 3 = [(0, (0, 0, 2)), (0, (1, 0, 2))]"
    by (simp add: ex_chunk_def occurrences_def where_eq_def)
  have out: "output_block_entities ex_acc_phase1 =
       [new_at_location ex_block_entity (0 + 2 * 16, 0 + 0 * 16, 2 + (- 1) * 16),
        new_at_location ex_block_entity (1 + 2 * 16, 0 + 0 * 16, 2 + (- 1) * 16)]"
    by (simp add: ex_acc_phase1_def new_at_location_def)
  from phase1_block_entity_per_occurrence[OF ex_phase1 ex_wf, of 3]
  show ?thesis using ex_phase1 ex_wf occ out by blast
qed

section \<open>Deferral to Phase 2\<close>

text \<open>
  Claim C5. After Phases 1 and 2: the deferred indices \<open>todo\<close> are exactly the palette
  indices whose context-free translation sets the needs-context flag, provided a chunk
  loader was supplied; no palette-wide mapping is recorded for them; the callback has
  been invoked once per palette index without a resolver and then once per occurrence of
  every deferred index, with the resolver bound to that occurrence's position, and what
  that invocation yields is what \<open>block_mappings\<close> holds for the position (the index of
  the yielded block in the output palette, or nothing when no block is yielded). Without
  a chunk loader nothing is deferred, and an index has a palette-wide mapping exactly when
  its context-free translation yields a block.
\<close>

theorem context_deferral:
  assumes p1: "phase1 chunk palette gcc tb es = Inr st1"
    and p2: "phase2 chunk palette gcc tb es st1 = Inr st2"
    and wf: "wf_blocks (blocks chunk)"
  shows "todo st1 =
           map fst (filter (\<lambda>(i, input_block). \<not> Option.is_none gcc \<and>
                      (case tb input_block None of
                         Inr (ob, obe, oe, extra) \<Rightarrow> extra | Inl e \<Rightarrow> False))
                    (enumerate 0 palette))
     \<and> (\<forall>i \<in> set (todo st1). map_of (palette_mappings st2) i = None)
     \<and> tb_calls st2 =
           map (\<lambda>(i, input_block). (i, None)) (enumerate 0 palette) @
           concat (map (\<lambda>i. map (\<lambda>(cy, x, y, z). (i, Some (x, y + cy * 16, z)))
                            (occurrences (blocks chunk) i)) (todo st1))
     \<and> (\<forall>i \<in> set (todo st1). \<forall>(cy, x, y, z) \<in> set (occurrences (blocks chunk) i).
           \<exists>ob obe oe extra.
             tb (palette ! i) (Some (get_block_at chunk palette gcc (x, y + cy * 16, z))) =
               Inr (ob, obe, oe, extra) \<and>
             (case ob of
                Some b \<Rightarrow> \<exists>k. map_of (block_mappings st2) (x, y + cy * 16, z) = Some (Idx k) \<and>
                             k < length (finished st2) \<and> finished st2 ! k = b
              | None \<Rightarrow> map_of (block_mappings st2) (x, y + cy * 16, z) = None))
     \<and> (Option.is_none gcc \<longrightarrow>
           todo st1 = [] \<and>
           fst ` set (palette_mappings st1) =
             {i. i < length palette \<and>
                 (\<exists>b obe oe extra. tb (palette ! i) None = Inr (Some b, obe, oe, extra))})"
proof -
  have todo1: "todo st1 =
           map fst (filter (\<lambda>(i, input_block). \<not> Option.is_none gcc \<and>
                      (case tb input_block None of
                         Inr (ob, obe, oe, extra) \<Rightarrow> extra | Inl e \<Rightarrow> False))
                    (enumerate 0 palette))"
    using phase1_todo[OF p1] by (simp add: split_def)
  have keys1: "fst ` set (palette_mappings st1) =
     {i. i < length palette \<and>
         (\<exists>b obe oe extra. tb (palette ! i) None = Inr (Some b, obe, oe, extra) \<and>
                            \<not> (extra \<and> \<not> Option.is_none gcc))}"
    by (rule phase1_keys[OF p1])
  have deferred: "i < length palette \<and> \<not> Option.is_none gcc \<and>
      (\<exists>ob obe oe. tb (palette ! i) None = Inr (ob, obe, oe, True))"
    if "i \<in> set (todo st1)" for i
  proof -
    from that obtain p where "(i, p) \<in> set (enumerate 0 palette)"
      and d: "\<not> Option.is_none gcc"
        "(case tb p None of Inr (ob, obe, oe, extra) \<Rightarrow> extra | Inl e \<Rightarrow> False)"
      unfolding todo1 by auto
    then have "i < length palette" "p = palette ! i"
      by (auto simp: in_set_enumerate_eq)
    then show ?thesis using d by (auto split: sum.splits)
  qed
  have nomap: "map_of (palette_mappings st2) i = None" if "i \<in> set (todo st1)" for i
  proof -
    from deferred[OF that] have "i \<notin> fst ` set (palette_mappings st1)"
      unfolding keys1 by auto
    then show ?thesis
      by (simp add: phase2_palette_mappings[OF p2] map_of_eq_None_iff)
  qed
  have calls: "tb_calls st2 =
           map (\<lambda>(i, input_block). (i, None)) (enumerate 0 palette) @
           concat (map (\<lambda>i. map (\<lambda>(cy, x, y, z). (i, Some (x, y + cy * 16, z)))
                            (occurrences (blocks chunk) i)) (todo st1))"
    using phase2_calls[OF p2] phase1_calls[OF p1] by (simp add: split_def)
  have recorded: "\<exists>ob obe oe extra.
             tb (palette ! i) (Some (get_block_at chunk palette gcc (x, y + cy * 16, z))) =
               Inr (ob, obe, oe, extra) \<and>
             (case ob of
                Some b \<Rightarrow> \<exists>k. map_of (block_mappings st2) (x, y + cy * 16, z) = Some (Idx k) \<and>
                             k < length (finished st2) \<and> finished st2 ! k = b
              | None \<Rightarrow> map_of (block_mappings st2) (x, y + cy * 16, z) = None)"
    if i: "i \<in> set (todo st1)" and occ: "(cy, x, y, z) \<in> set (occurrences (blocks chunk) i)"
    for i cy x y z
  proof -
    have mem: "(i, cy, (x, y, z)) \<in>
        set (concat (map (\<lambda>index. map (Pair index) (occurrences (blocks chunk) index)) (todo st1)))"
      using i occ by auto
    from phase2_records_position[OF p2[unfolded phase2_def] mem]
    obtain ci ib ob obe oe extra where
      g: "blocks_getitem (blocks chunk) (x, y + cy * 16, z) = Inr ci"
      and p: "getitem palette ci = Inr ib"
      and r: "tb ib (Some (get_block_at chunk palette gcc (x, y + cy * 16, z))) =
          Inr (ob, obe, oe, extra)"
      and m: "(case ob of
        Some b \<Rightarrow> \<exists>k. map_of (block_mappings st2) (x, y + cy * 16, z) = Some (Idx k) \<and>
                     k < length (finished st2) \<and> finished st2 ! k = b
      | None \<Rightarrow> map_of (block_mappings st2) (x, y + cy * 16, z) =
                 map_of (block_mappings st1) (x, y + cy * 16, z))"
      by blast
    have "ci = i" using occurrence_getitem[OF wf occ] g by simp
    then have "ib = palette ! i" using p by (auto simp: getitem_def split: if_splits)
    then show ?thesis
      using r m by (cases ob) (auto simp: phase1_block_mappings[OF p1])
  qed
  have none: "todo st1 = [] \<and>
           fst ` set (palette_mappings st1) =
             {i. i < length palette \<and>
                 (\<exists>b obe oe extra. tb (palette ! i) None = Inr (Some b, obe, oe, extra))}"
    if "Option.is_none gcc"
    using that todo1 keys1 by auto
  show ?thesis
  proof (intro conjI)
    show "todo st1 =
           map fst (filter (\<lambda>(i, input_block). \<not> Option.is_none gcc \<and>
                      (case tb input_block None of
                         Inr (ob, obe, oe, extra) \<Rightarrow> extra | Inl e \<Rightarrow> False))
                    (enumerate 0 palette))"
      by (rule todo1)
    show "\<forall>i \<in> set (todo st1). map_of (palette_mappings st2) i = None"
      using nomap by blast
    show "tb_calls st2 =
           map (\<lambda>(i, input_block). (i, None)) (enumerate 0 palette) @
           concat (map (\<lambda>i. map (\<lambda>(cy, x, y, z). (i, Some (x, y + cy * 16, z)))
                            (occurrences (blocks chunk) i)) (todo st1))"
      by (rule calls)
    show "\<forall>i \<in> set (todo st1). \<forall>(cy, x, y, z) \<in> set (occurrences (blocks chunk) i).
           \<exists>ob obe oe extra.
             tb (palette ! i) (Some (get_block_at chunk palette gcc (x, y + cy * 16, z))) =
               Inr (ob, obe, oe, extra) \<and>
             (case ob of
                Some b \<Rightarrow> \<exists>k. map_of (block_mappings st2) (x, y + cy * 16, z) = Some (Idx k) \<and>
                             k < length (finished st2) \<and> finished st2 ! k = b
              | None \<Rightarrow> map_of (block_mappings st2) (x, y + cy * 16, z) = None)"
    proof (intro ballI)
      fix i occ
      assume i: "i \<in> set (todo st1)" and o: "occ \<in> set (occurrences (blocks chunk) i)"
      obtain cy x y z where occ: "occ = (cy, x, y, z)" by (cases occ) auto
      from recorded[OF i o[unfolded occ]]
      show "case occ of (cy, x, y, z) \<Rightarrow>
           \<exists>ob obe oe extra.
             tb (palette ! i) (Some (get_block_at chunk palette gcc (x, y + cy * 16, z))) =
               Inr (ob, obe, oe, extra) \<and>
             (case ob of
                Some b \<Rightarrow> \<exists>k. map_of (block_mappings st2) (x, y + cy * 16, z) = Some (Idx k) \<and>
                             k < length (finished st2) \<and> finished st2 ! k = b
              | None \<Rightarrow> map_of (block_mappings st2) (x, y + cy * 16, z) = None)"
        unfolding occ by simp
    qed
    show "Option.is_none gcc \<longrightarrow>
           todo st1 = [] \<and>
           fst ` set (palette_mappings st1) =
             {i. i < length palette \<and>
                 (\<exists>b obe oe extra. tb (palette ! i) None = Inr (Some b, obe, oe, extra))}"
      using none by blast
  qed
qed

text \<open>
  The example chunk: index 1 (\<open>door\<close>) is deferred when a loader is supplied and is
  translated at its two positions; without a loader nothing is deferred.
\<close>

theorem context_deferral_witness:
  "phase1 ex_chunk ex_palette (Some ex_get_chunk) ex_translate_block True = Inr ex_acc_phase1
   \<and> phase2 ex_chunk ex_palette (Some ex_get_chunk) ex_translate_block True ex_acc_phase1 =
       Inr ex_acc
   \<and> wf_blocks (blocks ex_chunk)
   \<and> todo ex_acc_phase1 = [1]
   \<and> map_of (palette_mappings ex_acc) 1 = None
   \<and> tb_calls ex_acc =
       [(0, None), (1, None), (2, None), (3, None), (4, None),
        (1, Some (0, 0, 1)), (1, Some (1, 0, 0))]
   \<and> (\<exists>k. map_of (block_mappings ex_acc) (0, 0, 1) = Some (Idx k) \<and>
           k < length (finished ex_acc) \<and> finished ex_acc ! k = ''universal_door'')
   \<and> phase1 ex_chunk ex_palette None ex_translate_block True = Inr ex_acc_no_loader
   \<and> todo ex_acc_no_loader = []
   \<and> fst ` set (palette_mappings ex_acc_no_loader) = {0, 3, 4}"
proof -
  note with_loader = context_deferral[OF ex_phase1 ex_phase2 ex_wf]
  note no_loader = context_deferral[OF ex_phase1_no_loader ex_phase2_no_loader ex_wf]
  have todo1: "todo ex_acc_phase1 = [1]"
    by (simp add: ex_acc_phase1_def)
  have occ: "(0, 0, 0, 1) \<in> set (occurrences (blocks ex_chunk) 1)"
    by (simp add: ex_chunk_def occurrences_def where_eq_def)
  from with_loader have "map_of (palette_mappings ex_acc) 1 = None"
    using todo1 by simp
  moreover from with_loader have "tb_calls ex_acc =
       [(0, None), (1, None), (2, None), (3, None), (4, None),
        (1, Some (0, 0, 1)), (1, Some (1, 0, 0))]"
    by (simp add: ex_acc_def)
  moreover have "\<exists>k. map_of (block_mappings ex_acc) (0, 0, 1) = Some (Idx k) \<and>
           k < length (finished ex_acc) \<and> finished ex_acc ! k = ''universal_door''"
  proof -
    from with_loader have "\<forall>(cy, x, y, z) \<in> set (occurrences (blocks ex_chunk) 1).
           \<exists>ob obe oe extra.
             ex_translate_block (ex_palette ! 1)
               (Some (get_block_at ex_chunk ex_palette (Some ex_get_chunk) (x, y + cy * 16, z))) =
               Inr (ob, obe, oe, extra) \<and>
             (case ob of
                Some b \<Rightarrow> \<exists>k. map_of (block_mappings ex_acc) (x, y + cy * 16, z) = Some (Idx k) \<and>
                             k < length (finished ex_acc) \<and> finished ex_acc ! k = b
              | None \<Rightarrow> map_of (block_mappings ex_acc) (x, y + cy * 16, z) = None)"
      using todo1 by simp
    from bspec[OF this occ] show ?thesis
      by (simp add: ex_translate_block_def ex_palette_def)
  qed
  moreover from no_loader have "todo ex_acc_no_loader = []"
    "fst ` set (palette_mappings ex_acc_no_loader) = {0, 3, 4}"
    by (simp_all add: ex_acc_no_loader_def ex_acc_phase1_def)
  ultimately show ?thesis
    using ex_phase1 ex_phase2 ex_wf todo1 ex_phase1_no_loader by blast
qed

section \<open>The round trip\<close>

text \<open>
  Claim C1. Let every palette entry be a block such that the version's rules map each of
  its layers one to one to a universal layer and that layer back, without asking for
  context. Then \<open>to_universal\<close> followed by \<open>from_universal\<close> (both with a full translate)
  succeeds, and the block array that comes back is the original one up to a renumbering
  \<open>r\<close> of the palette indices: the cells are the same, a cell that held \<open>v\<close> holds \<open>r v\<close>,
  and for every index \<open>v\<close> of the original palette the final palette holds at \<open>r v\<close> the
  block that the original palette holds at \<open>v\<close>.
\<close>

theorem round_trip:
  assumes rules: "\<forall>e \<in> set palette. \<exists>b. e = Blk b \<and>
     (\<forall>l \<in> set (base_layer b # extra_layers b).
        (\<exists>be. block_to_universal ver (Block l []) None =
                 Inr (BlockObject (Block (f l) []), be, False)) \<and>
        (\<exists>be. block_from_universal ver (Block (f l) []) None =
                 Inr (BlockObject (Block l []), be, False)))"
  shows "\<exists>chunk1 palette1 chunk2 palette2 r.
     to_universal ver chunk palette gcc es True = Inr (chunk1, palette1) \<and>
     from_universal ver chunk1 palette1 gcc' es True = Inr (chunk2, palette2) \<and>
     blocks chunk2 = map (\<lambda>(cy, a). (cy, map (\<lambda>(p, v). (p, r v)) a)) (blocks chunk) \<and>
     (\<forall>v < length palette. r v < length palette2 \<and> palette2 ! r v = palette ! v)"
proof -
  define tb1 where "tb1 = translate_block_with (block_to_universal ver)"
  define tb2 where "tb2 = translate_block_with (block_from_universal ver)"
  define F where "F = (\<lambda>b. Block (f (base_layer b)) (map f (extra_layers b)))"
  have fwd: "\<exists>be. tb1 (Blk b) None = Inr (Some (F b), be, [], False)"
    if "Blk b \<in> set palette" for b
  proof -
    from rules that have "\<forall>l \<in> set (base_layer b # extra_layers b).
        (\<exists>be. block_to_universal ver (Block l []) None =
                 Inr (BlockObject (Block (f l) []), be, False))" by fastforce
    then have "list_all2 (\<lambda>l l'. \<exists>be. block_to_universal ver (Block l []) None =
          Inr (BlockObject (Block l' []), be, False))
        (base_layer b # extra_layers b) (f (base_layer b) # map f (extra_layers b))"
      by (simp add: list_all2_map2 list_all2_same)
    then show ?thesis
      unfolding tb1_def F_def
      by (rule translate_block_with_layers[where rule = "block_to_universal ver"])
  qed
  have bwd: "\<exists>be. tb2 (Blk (F b)) None = Inr (Some b, be, [], False)"
    if "Blk b \<in> set palette" for b
  proof -
    from rules that have "\<forall>l \<in> set (base_layer b # extra_layers b).
        (\<exists>be. block_from_universal ver (Block (f l) []) None =
                 Inr (BlockObject (Block l []), be, False))" by fastforce
    then have "list_all2 (\<lambda>l l'. \<exists>be. block_from_universal ver (Block l []) None =
          Inr (BlockObject (Block l' []), be, False))
        (base_layer (F b) # extra_layers (F b)) (base_layer b # extra_layers b)"
      by (simp add: F_def list_all2_map1 list_all2_same)
    then have "\<exists>be. translate_block_with (block_from_universal ver) (Blk (F b)) None =
        Inr (Some (Block (base_layer b) (extra_layers b)), be, [], False)"
      by (rule translate_block_with_layers[where rule = "block_from_universal ver"])
    then show ?thesis by (simp add: tb2_def)
  qed
  have isblk: "\<exists>b. e = Blk b" if "e \<in> set palette" for e
    using rules that by blast
  have cf1: "\<forall>e \<in> set palette. \<exists>b obe oe. tb1 e None = Inr (Some b, obe, oe, False)"
  proof
    fix e
    assume e: "e \<in> set palette"
    then obtain b where b: "e = Blk b" using isblk by blast
    from fwd[OF e[unfolded b]] show "\<exists>b obe oe. tb1 e None = Inr (Some b, obe, oe, False)"
      unfolding b by blast
  qed
  from to_universal_translate[of chunk ver palette gcc es True]
  obtain chunkA where bA: "blocks chunkA = blocks chunk"
    and tu: "to_universal ver chunk palette gcc es True =
       translate chunkA palette gcc tb1 translate_entity_stub es True"
    unfolding tb1_def by (elim exE conjE)
  from context_free_pass[where palette = palette and tb = tb1 and chunk = chunkA and gcc = gcc
      and es = es, OF cf1]
  obtain c1 p1 r1 where t1: "translate chunkA palette gcc tb1 translate_entity_stub es True =
        Inr (c1, p1)"
    and b1: "blocks c1 = map (\<lambda>(cy, a). (cy, map (\<lambda>(p, v). (p, r1 v)) a)) (blocks chunkA)"
    and i1: "\<forall>v < length palette. r1 v < length p1 \<and>
        (\<exists>b obe oe. tb1 (palette ! v) None = Inr (Some b, obe, oe, False) \<and> p1 ! r1 v = Blk b)"
    and e1: "\<forall>e' \<in> set p1. \<exists>j b obe oe. j < length palette \<and>
        tb1 (palette ! j) None = Inr (Some b, obe, oe, False) \<and> e' = Blk b"
    by (elim exE conjE)
  have img: "\<exists>b. Blk b \<in> set palette \<and> e' = Blk (F b)" if "e' \<in> set p1" for e'
  proof -
    from e1 that obtain j b1 obe oe where j: "j < length palette"
      and t: "tb1 (palette ! j) None = Inr (Some b1, obe, oe, False)" and e': "e' = Blk b1"
      by blast
    from j have m: "palette ! j \<in> set palette" by (rule nth_mem)
    then obtain b where b: "palette ! j = Blk b" using isblk by blast
    from fwd[OF m[unfolded b]] t have "b1 = F b" unfolding b by auto
    then show ?thesis using m b e' by auto
  qed
  have cf2: "\<forall>e' \<in> set p1. \<exists>b obe oe. tb2 e' None = Inr (Some b, obe, oe, False)"
  proof
    fix e'
    assume "e' \<in> set p1"
    from img[OF this] obtain b where b: "Blk b \<in> set palette" "e' = Blk (F b)" by blast
    from bwd[OF b(1)] show "\<exists>b obe oe. tb2 e' None = Inr (Some b, obe, oe, False)"
      unfolding b(2) by blast
  qed
  from context_free_pass[where palette = p1 and tb = tb2 and chunk = c1 and gcc = gcc'
      and es = es, OF cf2]
  obtain c2 p2 r2 where t2: "translate c1 p1 gcc' tb2 translate_entity_stub es True = Inr (c2, p2)"
    and b2: "blocks c2 = map (\<lambda>(cy, a). (cy, map (\<lambda>(p, v). (p, r2 v)) a)) (blocks c1)"
    and i2: "\<forall>v < length p1. r2 v < length p2 \<and>
        (\<exists>b obe oe. tb2 (p1 ! v) None = Inr (Some b, obe, oe, False) \<and> p2 ! r2 v = Blk b)"
    by (elim exE conjE)
  from from_universal_translate[OF t2[unfolded tb2_def]]
  obtain c3 where fu: "from_universal ver c1 p1 gcc' es True = Inr (c3, p2)"
    and b3: "blocks c3 = blocks c2" by (elim exE conjE)
  have bl: "blocks c3 = map (\<lambda>(cy, a). (cy, map (\<lambda>(p, v). (p, r2 (r1 v))) a)) (blocks chunk)"
    by (simp only: b3 b2 b1 bA rewrite_twice)
  have idx: "\<forall>v < length palette. r2 (r1 v) < length p2 \<and> p2 ! r2 (r1 v) = palette ! v"
  proof (intro allI impI)
    fix v
    assume v: "v < length palette"
    then have m: "palette ! v \<in> set palette" by (rule nth_mem)
    then obtain b where b: "palette ! v = Blk b" using isblk by blast
    from i1 v obtain b1 obe oe where l1: "r1 v < length p1"
      and t: "tb1 (palette ! v) None = Inr (Some b1, obe, oe, False)"
      and at1: "p1 ! r1 v = Blk b1" by blast
    from fwd[OF m[unfolded b]] t have b1F: "b1 = F b" unfolding b by auto
    from i2 l1 obtain b2 obe2 oe2 where l2: "r2 (r1 v) < length p2"
      and t': "tb2 (p1 ! r1 v) None = Inr (Some b2, obe2, oe2, False)"
      and at2: "p2 ! r2 (r1 v) = Blk b2" by blast
    from bwd[OF m[unfolded b]] t' have "b2 = b" unfolding at1 b1F by auto
    then show "r2 (r1 v) < length p2 \<and> p2 ! r2 (r1 v) = palette ! v"
      using l2 at2 b by simp
  qed
  have tu': "to_universal ver chunk palette gcc es True = Inr (c1, p1)"
    using tu t1 by simp
  show ?thesis
    using tu' fu bl idx
    by (intro exI[of _ c1] exI[of _ p1] exI[of _ c3] exI[of _ p2]
        exI[of _ "\<lambda>v. r2 (r1 v)"] conjI) assumption+
qed

text \<open>
  The example version and chunk: all three palette entries, the layered one included,
  come back as they were.
\<close>

theorem round_trip_witness:
  "\<exists>chunk1 palette1 chunk2 palette2 r.
     to_universal ex_version ex_rt_chunk ex_rt_palette None False True = Inr (chunk1, palette1) \<and>
     from_universal ex_version chunk1 palette1 None False True = Inr (chunk2, palette2) \<and>
     blocks chunk2 = map (\<lambda>(cy, a). (cy, map (\<lambda>(p, v). (p, r v)) a)) (blocks ex_rt_chunk) \<and>
     r 0 < length palette2 \<and> palette2 ! r 0 = Blk (Block ''stone'' []) \<and>
     r 1 < length palette2 \<and> palette2 ! r 1 = Blk (Block ''water'' []) \<and>
     r 2 < length palette2 \<and> palette2 ! r 2 = Blk (Block ''stone'' [''water''])"
proof -
  have rules: "\<forall>e \<in> set ex_rt_palette. \<exists>b. e = Blk b \<and>
     (\<forall>l \<in> set (base_layer b # extra_layers b).
        (\<exists>be. block_to_universal ex_version (Block l []) None =
                 Inr (BlockObject (Block (ex_universal l) []), be, False)) \<and>
        (\<exists>be. block_from_universal ex_version (Block (ex_universal l) []) None =
                 Inr (BlockObject (Block l []), be, False)))"
    by (simp add: ex_rt_palette_def ex_version_def ex_universal_def)
  from round_trip[OF rules, of ex_rt_chunk None False None]
  obtain chunk1 palette1 chunk2 palette2 r where
    a: "to_universal ex_version ex_rt_chunk ex_rt_palette None False True = Inr (chunk1, palette1)"
    and b: "from_universal ex_version chunk1 palette1 None False True = Inr (chunk2, palette2)"
    and c: "blocks chunk2 = map (\<lambda>(cy, a). (cy, map (\<lambda>(p, v). (p, r v)) a)) (blocks ex_rt_chunk)"
    and d: "\<forall>v < length ex_rt_palette. r v < length palette2 \<and> palette2 ! r v = ex_rt_palette ! v"
    by (elim exE conjE)
  have "r 0 < length palette2 \<and> palette2 ! r 0 = Blk (Block ''stone'' [])"
    "r 1 < length palette2 \<and> palette2 ! r 1 = Blk (Block ''water'' [])"
    "r 2 < length palette2 \<and> palette2 ! r 2 = Blk (Block ''stone'' [''water''])"
    using d by (simp_all add: ex_rt_palette_def)
  then show ?thesis using a b c by blast
qed

section \<open>Palette deduplication\<close>

text \<open>
  Claim C6. When two palette indices \<open>i\<close> and \<open>j\<close> (for instance two indices holding
  structurally equal blocks) are both translated without context to the same block \<open>b\<close>,
  the palette that \<open>_translate\<close> returns holds \<open>b\<close> at exactly one index \<open>k\<close>, and every
  cell that held \<open>i\<close> or \<open>j\<close> holds \<open>k\<close> afterwards. \<open>get_add_block\<close> returns the index of a
  block that is already present, leaving the manager as it is, and otherwise appends the
  block and returns the next sequential index.
\<close>

theorem palette_dedup:
  assumes tr: "translate chunk palette gcc tb te es True = Inr (chunk', palette')"
    and wf: "wf_blocks (blocks chunk)"
    and i: "i < length palette" "tb (palette ! i) None = Inr (Some b, obe_i, oe_i, extra_i)"
      "\<not> (extra_i \<and> \<not> Option.is_none gcc)"
    and j: "j < length palette" "tb (palette ! j) None = Inr (Some b, obe_j, oe_j, extra_j)"
      "\<not> (extra_j \<and> \<not> Option.is_none gcc)"
  shows "(\<exists>k. k < length palette' \<and> palette' ! k = Blk b \<and>
            (\<forall>k' < length palette'. palette' ! k' = Blk b \<longrightarrow> k' = k) \<and>
            (\<forall>cy a x y z v. map_of (blocks chunk) cy = Some a \<longrightarrow> map_of a (x, y, z) = Some v \<longrightarrow>
               v = i \<or> v = j \<longrightarrow>
               (\<exists>a'. map_of (blocks chunk') cy = Some a' \<and> map_of a' (x, y, z) = Some k)))
     \<and> (b0 \<in> set bm \<longrightarrow>
          get_add_block b0 bm = (index_of bm b0, bm) \<and> index_of bm b0 < length bm \<and>
          bm ! index_of bm b0 = b0)
     \<and> (b0 \<notin> set bm \<longrightarrow> get_add_block b0 bm = (length bm, bm @ [b0]))"
proof -
  from translate_cell[OF tr wf] obtain st1 ys where
    p1: "phase1 chunk palette gcc tb es = Inr st1"
    and pal: "palette' = map Blk (finished st1 @ ys)"
    and d: "distinct (finished st1 @ ys)"
    and cells: "\<forall>cy a x y z v. map_of (blocks chunk) cy = Some a \<longrightarrow>
        map_of a (x, y, z) = Some v \<longrightarrow> v \<notin> set (todo st1) \<longrightarrow>
          (\<exists>a'. map_of (blocks chunk') cy = Some a' \<and>
            map_of a' (x, y, z) =
              Some (case map_of (palette_mappings st1) v of Some n \<Rightarrow> n | None \<Rightarrow> 0))"
    by (elim exE conjE) (rule that, assumption+)
  from phase1_mapping(1)[OF p1 i] obtain ki where
    ki: "map_of (palette_mappings st1) i = Some ki" "ki < length (finished st1)"
      "finished st1 ! ki = b" by blast
  from phase1_mapping(1)[OF p1 j] obtain kj where
    kj: "map_of (palette_mappings st1) j = Some kj" "kj < length (finished st1)"
      "finished st1 ! kj = b" by blast
  have d1: "distinct (finished st1)" using d by simp
  have same: "kj = ki"
    using ki(2,3) kj(2,3) nth_eq_iff_index_eq[OF d1, of kj ki] by simp
  have nt: "i \<notin> set (todo st1)" "j \<notin> set (todo st1)"
    using phase1_mapping(2)[OF p1 i] phase1_mapping(2)[OF p1 j] by simp_all
  have len: "ki < length palette'" using ki(2) by (simp add: pal)
  have at: "palette' ! ki = Blk b"
    using ki(2,3) by (simp add: pal nth_append)
  have dp: "distinct palette'"
    unfolding pal using d by (simp add: distinct_map inj_on_def del: map_append)
  have uniq: "\<forall>k' < length palette'. palette' ! k' = Blk b \<longrightarrow> k' = ki"
  proof (intro allI impI)
    fix k'
    assume "k' < length palette'" "palette' ! k' = Blk b"
    then show "k' = ki"
      using len at nth_eq_iff_index_eq[OF dp, of k' ki] by simp
  qed
  have cell: "\<forall>cy a x y z v. map_of (blocks chunk) cy = Some a \<longrightarrow> map_of a (x, y, z) = Some v \<longrightarrow>
               v = i \<or> v = j \<longrightarrow>
               (\<exists>a'. map_of (blocks chunk') cy = Some a' \<and> map_of a' (x, y, z) = Some ki)"
  proof (intro allI impI)
    fix cy a x y z v
    assume c: "map_of (blocks chunk) cy = Some a" "map_of a (x, y, z) = Some v" and v: "v = i \<or> v = j"
    then have "v \<notin> set (todo st1)" "map_of (palette_mappings st1) v = Some ki"
      using nt ki(1) kj(1) same by auto
    then show "\<exists>a'. map_of (blocks chunk') cy = Some a' \<and> map_of a' (x, y, z) = Some ki"
      using cells c by fastforce
  qed
  have "\<exists>k. k < length palette' \<and> palette' ! k = Blk b \<and>
            (\<forall>k' < length palette'. palette' ! k' = Blk b \<longrightarrow> k' = k) \<and>
            (\<forall>cy a x y z v. map_of (blocks chunk) cy = Some a \<longrightarrow> map_of a (x, y, z) = Some v \<longrightarrow>
               v = i \<or> v = j \<longrightarrow>
               (\<exists>a'. map_of (blocks chunk') cy = Some a' \<and> map_of a' (x, y, z) = Some k))"
    using len at uniq cell by (intro exI[of _ ki] conjI) assumption+
  moreover have "b0 \<in> set bm \<longrightarrow>
          get_add_block b0 bm = (index_of bm b0, bm) \<and> index_of bm b0 < length bm \<and>
          bm ! index_of bm b0 = b0"
    using index_of_nth[of b0 bm] by (simp add: get_add_block_def)
  moreover have "b0 \<notin> set bm \<longrightarrow> get_add_block b0 bm = (length bm, bm @ [b0])"
    by (simp add: get_add_block_def)
  ultimately show ?thesis by (intro conjI) assumption+
qed

text \<open>
  The example chunk: the palette indices 0 and 4 both hold \<open>stone\<close>; the cells
  \<open>(0, 0, 0)\<close> and \<open>(0, 0, 3)\<close> that held them hold the same output index afterwards.
\<close>

theorem palette_dedup_witness:
  "translate ex_chunk ex_palette (Some ex_get_chunk) ex_translate_block translate_entity_stub
     True True =
     Inr (ex_chunk\<lparr>blocks := ex_blocks_out, block_entities := output_block_entities ex_acc,
            entities := output_entities ex_acc\<rparr>, map Blk (finished ex_acc))
   \<and> wf_blocks (blocks ex_chunk)
   \<and> ex_palette ! 0 = ex_palette ! 4
   \<and> (\<exists>k. k < length (map Blk (finished ex_acc)) \<and>
          map Blk (finished ex_acc) ! k = Blk ''universal_stone'' \<and>
          (\<exists>a'. map_of ex_blocks_out 0 = Some a' \<and> map_of a' (0, 0, 0) = Some k \<and>
                 map_of a' (0, 0, 3) = Some k))
   \<and> get_add_block ''universal_stone'' [''universal_stone'', ''universal_chest''] =
       (0, [''universal_stone'', ''universal_chest''])
   \<and> get_add_block ''universal_door'' [''universal_stone'', ''universal_chest''] =
       (2, [''universal_stone'', ''universal_chest'', ''universal_door''])"
proof -
  have i: "0 < length ex_palette"
    "ex_translate_block (ex_palette ! 0) None = Inr (Some ''universal_stone'', None, [], False)"
    "\<not> (False \<and> \<not> Option.is_none (Some ex_get_chunk))"
    by (simp_all add: ex_palette_def ex_translate_block_def)
  have j: "4 < length ex_palette"
    "ex_translate_block (ex_palette ! 4) None = Inr (Some ''universal_stone'', None, [], False)"
    "\<not> (False \<and> \<not> Option.is_none (Some ex_get_chunk))"
    by (simp_all add: ex_palette_def ex_translate_block_def)
  note t = palette_dedup[OF ex_translate ex_wf i j,
      of "''universal_door''" "[''universal_stone'', ''universal_chest'']"]
  from t obtain k where k: "k < length (map Blk (finished ex_acc))"
    "map Blk (finished ex_acc) ! k = Blk ''universal_stone''"
    and cells: "\<forall>cy a x y z v. map_of (blocks ex_chunk) cy = Some a \<longrightarrow>
        map_of a (x, y, z) = Some v \<longrightarrow> v = 0 \<or> v = 4 \<longrightarrow>
        (\<exists>a'. map_of (blocks (ex_chunk\<lparr>blocks := ex_blocks_out,
                 block_entities := output_block_entities ex_acc,
                 entities := output_entities ex_acc\<rparr>)) cy = Some a' \<and>
              map_of a' (x, y, z) = Some k)"
    by blast
  have c0: "map_of (blocks ex_chunk) 0 = Some (snd (hd (blocks ex_chunk)))"
    "map_of (snd (hd (blocks ex_chunk))) (0, 0, 0) = Some 0"
    "map_of (snd (hd (blocks ex_chunk))) (0, 0, 3) = Some 4"
    by (simp_all add: ex_chunk_def)
  from cells c0(1,2) have "\<exists>a'. map_of ex_blocks_out 0 = Some a' \<and> map_of a' (0, 0, 0) = Some k"
    by fastforce
  moreover from cells c0(1,3) have "\<exists>a'. map_of ex_blocks_out 0 = Some a' \<and> map_of a' (0, 0, 3) = Some k"
    by fastforce
  ultimately have "\<exists>a'. map_of ex_blocks_out 0 = Some a' \<and> map_of a' (0, 0, 0) = Some k \<and>
                 map_of a' (0, 0, 3) = Some k"
    by auto
  with k have "\<exists>k. k < length (map Blk (finished ex_acc)) \<and>
          map Blk (finished ex_acc) ! k = Blk ''universal_stone'' \<and>
          (\<exists>a'. map_of ex_blocks_out 0 = Some a' \<and> map_of a' (0, 0, 0) = Some k \<and>
                 map_of a' (0, 0, 3) = Some k)"
    by blast
  moreover have "ex_palette ! 0 = ex_palette ! 4" by (simp add: ex_palette_def)
  moreover from t have "get_add_block ''universal_stone'' [''universal_stone'', ''universal_chest''] =
       (0, [''universal_stone'', ''universal_chest''])"
    by (simp add: get_add_block_def)
  moreover from t have "get_add_block ''universal_door'' [''universal_stone'', ''universal_chest''] =
       (2, [''universal_stone'', ''universal_chest'', ''universal_door''])"
    by simp
  ultimately show ?thesis using ex_translate ex_wf by (intro conjI) assumption+
qed

section \<open>The cross-chunk block resolver\<close>

text \<open>
  Claim C8. A call of the resolver bound to the position \<open>(x, y, z)\<close> with the relative
  offset \<open>(rx, ry, rz)\<close> looks at the target \<open>(rx + x, ry + y, rz + z)\<close>. When both
  \<open>(rx + x) div 16\<close> and \<open>(rz + z) div 16\<close> are zero, it reads the cell from the current
  chunk's block array, the block from the current palette and the block entity from the
  current chunk at the absolute coordinates; otherwise it calls the chunk loader with the
  two quotients and reads the cell \<open>((rx + x) mod 16, ry + y, (rz + z) mod 16)\<close>, the block and
  the block entity (at the same absolute coordinates) from the chunk and the palette that
  the loader returns. In both cases a palette entry that is a tuple is replaced by the
  second component of its first element.
\<close>

theorem get_block_at_resolves:
  "((rx + x) div 16 = 0 \<and> (rz + z) div 16 = 0 \<and>
    map_of (blocks chunk) ((ry + y) div 16) = Some a \<and>
    map_of a (rx + x, (ry + y) mod 16, rz + z) = Some i \<and> i < length palette
    \<longrightarrow> get_block_at chunk palette gcc (x, y, z) (rx, ry, rz) =
          (case palette ! i of
             Blk b \<Rightarrow>
               Inr (b, block_entity_get (block_entities chunk)
                         (rx + x + cx chunk * 16, ry + y, rz + z + cz chunk * 16))
           | Tup [] \<Rightarrow> Inl IndexError
           | Tup ((v, b) # rest) \<Rightarrow>
               Inr (b, block_entity_get (block_entities chunk)
                         (rx + x + cx chunk * 16, ry + y, rz + z + cz chunk * 16))))
   \<and> (\<not> ((rx + x) div 16 = 0 \<and> (rz + z) div 16 = 0) \<and>
      gcc = Some load \<and>
      load ((rx + x) div 16) ((rz + z) div 16) = Inr (local_chunk, local_palette) \<and>
      map_of (blocks local_chunk) ((ry + y) div 16) = Some a' \<and>
      map_of a' ((rx + x) mod 16, (ry + y) mod 16, (rz + z) mod 16) = Some i' \<and>
      i' < length local_palette
      \<longrightarrow> get_block_at chunk palette gcc (x, y, z) (rx, ry, rz) =
            (case local_palette ! i' of
               Blk b \<Rightarrow>
                 Inr (b, block_entity_get (block_entities local_chunk)
                           (rx + x + cx chunk * 16, ry + y, rz + z + cz chunk * 16))
             | Tup [] \<Rightarrow> Inl IndexError
             | Tup ((v, b) # rest) \<Rightarrow>
                 Inr (b, block_entity_get (block_entities local_chunk)
                           (rx + x + cx chunk * 16, ry + y, rz + z + cz chunk * 16))))"
proof (intro conjI impI)
  assume h: "(rx + x) div 16 = 0 \<and> (rz + z) div 16 = 0 \<and>
    map_of (blocks chunk) ((ry + y) div 16) = Some a \<and>
    map_of a (rx + x, (ry + y) mod 16, rz + z) = Some i \<and> i < length palette"
  then have g: "blocks_getitem (blocks chunk) (rx + x, ry + y, rz + z) = Inr i"
    by (simp add: blocks_getitem_def)
  show "get_block_at chunk palette gcc (x, y, z) (rx, ry, rz) =
          (case palette ! i of
             Blk b \<Rightarrow>
               Inr (b, block_entity_get (block_entities chunk)
                         (rx + x + cx chunk * 16, ry + y, rz + z + cz chunk * 16))
           | Tup [] \<Rightarrow> Inl IndexError
           | Tup ((v, b) # rest) \<Rightarrow>
               Inr (b, block_entity_get (block_entities chunk)
                         (rx + x + cx chunk * 16, ry + y, rz + z + cz chunk * 16)))"
    using h g
    by (simp add: get_block_at_def getitem_def Let_def split: entry.splits list.splits)
next
  assume h: "\<not> ((rx + x) div 16 = 0 \<and> (rz + z) div 16 = 0) \<and>
      gcc = Some load \<and>
      load ((rx + x) div 16) ((rz + z) div 16) = Inr (local_chunk, local_palette) \<and>
      map_of (blocks local_chunk) ((ry + y) div 16) = Some a' \<and>
      map_of a' ((rx + x) mod 16, (ry + y) mod 16, (rz + z) mod 16) = Some i' \<and>
      i' < length local_palette"
  then have g: "blocks_getitem (blocks local_chunk) ((rx + x) mod 16, ry + y, (rz + z) mod 16) =
      Inr i'"
    by (simp add: blocks_getitem_def)
  show "get_block_at chunk palette gcc (x, y, z) (rx, ry, rz) =
            (case local_palette ! i' of
               Blk b \<Rightarrow>
                 Inr (b, block_entity_get (block_entities local_chunk)
                           (rx + x + cx chunk * 16, ry + y, rz + z + cz chunk * 16))
             | Tup [] \<Rightarrow> Inl IndexError
             | Tup ((v, b) # rest) \<Rightarrow>
                 Inr (b, block_entity_get (block_entities local_chunk)
                           (rx + x + cx chunk * 16, ry + y, rz + z + cz chunk * 16)))"
    using h g
    by (auto simp: get_block_at_def getitem_def Let_def split: entry.splits list.splits)
qed

text \<open>
  The example chunk, resolver bound to \<open>(1, 0, 3)\<close>: the offset \<open>(-1, 0, -2)\<close> stays in the
  chunk and finds a door; the offset \<open>(15, 0, 0)\<close> leaves it, and the neighbour's tuple
  entry is unwrapped to the bed it holds, with the block entity at \<open>(48, 0, -13)\<close>.
\<close>

theorem get_block_at_resolves_witness:
  "get_block_at ex_chunk ex_palette (Some ex_load) (1, 0, 3) (- 1, 0, - 2) = Inr (''door'', None)
   \<and> get_block_at ex_chunk ex_palette (Some ex_load) (1, 0, 3) (15, 0, 0) =
       Inr (''bed'', Some (ex_block_entity\<lparr>be_location := (48, 0, - 13)\<rparr>))"
proof -
  have "get_block_at ex_chunk ex_palette (Some ex_load) (1, 0, 3) (- 1, 0, - 2) =
      Inr (''door'', None)"
    using get_block_at_resolves[of "- 1" 1 "- 2" 3 ex_chunk 0 0 "snd (hd (blocks ex_chunk))" 1
        ex_palette "Some ex_load"]
    by (simp add: ex_chunk_def ex_palette_def block_entity_get_def)
  moreover have "get_block_at ex_chunk ex_palette (Some ex_load) (1, 0, 3) (15, 0, 0) =
       Inr (''bed'', Some (ex_block_entity\<lparr>be_location := (48, 0, - 13)\<rparr>))"
    using get_block_at_resolves[of 15 1 0 3 ex_chunk 0 0 _ _ ex_palette "Some ex_load" ex_load
        ex_neighbour ex_neighbour_palette "snd (hd (blocks ex_neighbour))" 4]
    by (simp add: ex_chunk_def ex_neighbour_def ex_neighbour_palette_def ex_load_def
        block_entity_get_def ex_block_entity_def)
  ultimately show ?thesis by simp
qed

section \<open>Entities placed by Phase 2\<close>

text \<open>
  Claim C9 at a concrete input. The example callback yields the same entity for a
  \<open>door\<close> in Phase 1 and in Phase 2. For the two doors of the chunk at \<open>(2, -1)\<close>, at
  the chunk-local positions \<open>(0, 0, 1)\<close> and \<open>(1, 0, 0)\<close>, Phase 1 places the clones at
  \<open>(32, 0, -15)\<close> and \<open>(33, 0, -16)\<close>, adding \<open>16 * cx\<close> and \<open>16 * cz\<close>; Phase 2 places
  them at \<open>(0, 0, 1)\<close> and \<open>(1, 0, 0)\<close>, without the chunk origin.
\<close>

theorem phase2_entities_lack_chunk_origin:
  "map_sum id (\<lambda>(c, p). map e_location (entities c))
     (translate ex_chunk ex_palette (Some ex_get_chunk) ex_translate_block
        translate_entity_stub True True)
   = Inr [(32, 0, - 15), (33, 0, - 16), (0, 0, 1), (1, 0, 0)]"
  by (simp add: ex_translate ex_acc_def ex_entity_def)

section \<open>Block mappings recorded by the entity pass\<close>

text \<open>
  Claim C4 at a concrete input. With entity support switched on and an entity-translate
  callback that yields a block, the entity pass records the block value itself in
  \<open>block_mappings\<close>, not an index returned by \<open>finished.get_add_block\<close>, and the commit
  cannot store it in the block array.
\<close>

theorem entity_pass_records_raw_block:
  "map_sum id block_mappings
     (translate_phases ex_chunk_with_entity ex_palette None ex_translate_block
        ex_translate_entity True)
   = Inr [((32, 0, - 16), Raw ''universal_stone'')]
   \<and> translate ex_chunk_with_entity ex_palette None ex_translate_block ex_translate_entity
        True True = Inl TypeError"
  by (simp add: engine_defs ex_defs)

section \<open>The replace operation: results\<close>

text \<open>
  Claim C2 at a concrete input. With two original blocks and three replacement blocks
  the operation logs the error and goes on: the cells that held \<open>A\<close> and \<open>B\<close> hold \<open>C\<close>
  and \<open>D\<close> afterwards, and \<open>D\<close> and \<open>E\<close> have been added to the palette.
\<close>

theorem replace_mismatched_counts_still_mutates:
  "replace \<lparr>w_palette = [''A'', ''B'', ''C''], w_selected = [[0, 1, 0, 2]]\<rparr>
     (Some [''A'', ''B'']) (Some [''C'', ''D'', ''E''])
   = Inr ([''Replace operation must be given the same number of destination blocks as source blocks''],
          \<lparr>w_palette = [''A'', ''B'', ''C'', ''D'', ''E''], w_selected = [[2, 3, 2, 2]]\<rparr>)"
  by (simp add: replace_def replace_in_slice_def get_add_block_def)

end
